theory Spec2Isabelle
  imports Main "HOL-Library.Char_ord" "HOL-Library.List_Lexorder" "HOL-Library.Product_Lexorder"
    "HOL-Library.Multiset"
begin

section \<open>Text\<close>

text \<open>
  A Python \<open>str\<close> is a sequence of code points, compared lexicographically by code point;
  a \<open>bytes\<close> value is a sequence of 8-bit characters.  \<open>str\<close> turns an ASCII literal
  of the script into such a sequence.
\<close>

type_synonym unicode = "nat list"

type_synonym bytes = "char list"

definition str :: "string \<Rightarrow> unicode" where
  "str s = map of_char s"

section \<open>Regular expressions as used by \<open>run-tests.py\<close>\<close>

text \<open>
  The script calls \<open>re.search\<close> and \<open>re.match\<close> on decoded output lines and uses only
  the truth value of the result.  The fragment of the pattern language that occurs in the
  two patterns of the script is modelled: literal characters, \<open>.\<close> (any character except
  the line feed), a character range \<open>[a-b]\<close>, concatenation, \<open>|\<close>, \<open>*\<close> and \<open>+\<close>.
\<close>

datatype regex =
    Zero
  | One
  | Lit nat
  | Dot
  | Range nat nat
  | Seq regex regex
  | Alt regex regex
  | Star regex

definition newline :: nat where
  "newline = 10"

text \<open>The words a pattern matches in full.\<close>

inductive_set star_words :: "unicode set \<Rightarrow> unicode set" for L :: "unicode set" where
  star_nil: "[] \<in> star_words L"
| star_app: "u \<in> L \<Longrightarrow> v \<in> star_words L \<Longrightarrow> u @ v \<in> star_words L"

fun lang :: "regex \<Rightarrow> unicode set" where
  "lang Zero = {}"
| "lang One = {[]}"
| "lang (Lit c) = {[c]}"
| "lang Dot = {[c] | c. c \<noteq> newline}"
| "lang (Range a b) = {[c] | c. a \<le> c \<and> c \<le> b}"
| "lang (Seq r s) = {u @ v | u v. u \<in> lang r \<and> v \<in> lang s}"
| "lang (Alt r s) = lang r \<union> lang s"
| "lang (Star r) = star_words (lang r)"

text \<open>The executable matcher: derivatives of the pattern along the text.\<close>

fun nullable :: "regex \<Rightarrow> bool" where
  "nullable Zero = False"
| "nullable One = True"
| "nullable (Lit c) = False"
| "nullable Dot = False"
| "nullable (Range a b) = False"
| "nullable (Seq r s) = (nullable r \<and> nullable s)"
| "nullable (Alt r s) = (nullable r \<or> nullable s)"
| "nullable (Star r) = True"

text \<open>Concatenation and alternation that drop the empty language as they build.\<close>

fun seq :: "regex \<Rightarrow> regex \<Rightarrow> regex" where
  "seq r s = (if r = Zero \<or> s = Zero then Zero else if r = One then s else Seq r s)"

fun alt :: "regex \<Rightarrow> regex \<Rightarrow> regex" where
  "alt r s = (if r = Zero then s else if s = Zero \<or> r = s then r else Alt r s)"

fun deriv :: "nat \<Rightarrow> regex \<Rightarrow> regex" where
  "deriv c Zero = Zero"
| "deriv c One = Zero"
| "deriv c (Lit d) = (if c = d then One else Zero)"
| "deriv c Dot = (if c \<noteq> newline then One else Zero)"
| "deriv c (Range a b) = (if a \<le> c \<and> c \<le> b then One else Zero)"
| "deriv c (Seq r s) =
     (if nullable r then alt (seq (deriv c r) s) (deriv c s) else seq (deriv c r) s)"
| "deriv c (Alt r s) = alt (deriv c r) (deriv c s)"
| "deriv c (Star r) = seq (deriv c r) (Star r)"

text \<open>\<open>re.match(p, s)\<close> is truthy iff the pattern matches some prefix of \<open>s\<close>.\<close>

fun re_match :: "regex \<Rightarrow> unicode \<Rightarrow> bool" where
  "re_match r [] = nullable r"
| "re_match r (c # cs) = (nullable r \<or> re_match (deriv c r) cs)"

text \<open>\<open>re.search(p, s)\<close> tries \<open>re.match\<close> at every start position, left to right.\<close>

fun re_search :: "regex \<Rightarrow> unicode \<Rightarrow> bool" where
  "re_search r [] = nullable r"
| "re_search r (c # cs) = (re_match r (c # cs) \<or> re_search r cs)"

fun lits :: "unicode \<Rightarrow> regex" where
  "lits [] = One"
| "lits (c # cs) = Seq (Lit c) (lits cs)"

definition Plus :: "regex \<Rightarrow> regex" where
  "Plus r = Seq r (Star r)"

text \<open>
  Line 149: \<open>r'test_.* \(pyspark\..*\) ... (skip|SKIP)'\<close>.  The parentheses and the dot
  after \<open>pyspark\<close> are escaped in the source, the three dots before the keyword are not.
\<close>

definition skip_pattern :: regex where
  "skip_pattern =
     Seq (lits (str ''test_'')) (Seq (Star Dot) (Seq (lits (str '' (pyspark.'')) (Seq (Star Dot)
       (Seq (lits (str '') '')) (Seq Dot (Seq Dot (Seq Dot (Seq (lits (str '' ''))
         (Alt (lits (str ''skip'')) (lits (str ''SKIP'')))))))))))"

text \<open>Line 131: \<open>'[0-9]+'\<close>.\<close>

definition digits_pattern :: regex where
  "digits_pattern = Plus (Range (of_char CHR ''0'') (of_char CHR ''9''))"


section \<open>Paths, after \<open>posixpath\<close>\<close>

type_synonym path = unicode

definition slash :: nat where
  "slash = 47"

text \<open>\<open>os.path.join(a, b)\<close> with two arguments.\<close>

definition path_join :: "path \<Rightarrow> path \<Rightarrow> path" where
  "path_join a b =
     (if b \<noteq> [] \<and> hd b = slash then b
      else if a = [] \<or> last a = slash then a @ b
      else a @ slash # b)"

text \<open>\<open>os.path.dirname(p)\<close>: the text up to the last separator, trailing separators
  stripped unless nothing else is left.\<close>

definition dirname :: "path \<Rightarrow> path" where
  "dirname p =
     (let head = rev (dropWhile (\<lambda>c. c \<noteq> slash) (rev p))
      in if head \<noteq> [] \<and> \<not> list_all (\<lambda>c. c = slash) head
         then rev (dropWhile (\<lambda>c. c = slash) (rev head)) else head)"

section \<open>The host: everything the script asks of its surroundings\<close>

datatype proc_result =
    Raised
  | Finished int bytes

datatype report_fault = OpenFails | WriteFails nat | PrintFails nat | ConsoleFails nat

datatype skip_fault = ReadFails | StoreFails

record module =
  name :: unicode
  python_test_goals :: "unicode list"
  excluded_python_implementations :: "unicode list"

type_synonym environment = "unicode \<rightharpoonup> unicode option"

text \<open>
  \<^item> \<open>os_environ\<close>, \<open>SPARK_HOME\<close>, \<open>SPARK_DIST_CLASSPATH\<close>, \<open>target_dir\<close>: the values the
    script reads at start-up; \<open>which\<close> is \<open>sparktestsupport.shellutils.which\<close>, which
    yields \<open>None\<close> for an executable that is not on the search path.
  \<^item> \<open>isdir\<close> answers \<open>os.path.isdir\<close>; \<open>uuid4 k\<close> is the text of the \<open>k\<close>-th random
    identifier drawn by the process.
  \<^item> \<open>popen_wait prog test_name env\<close> is what happens between lines 105 and 114: either
    an exception is raised, or the child started from \<open>[prog] + test_name.split()\<close>
    with environment \<open>env\<close> ends with an exit code, its merged output in the scratch file.
  \<^item> \<open>decode\<close> is \<open>bytes.decode("utf-8", "replace")\<close>.
  \<^item> \<open>report_fault\<close> says whether and where an exception is raised inside the \<open>try\<close> of
    lines 123 to 133: on opening the log file, after so many bytes were written to it, or
    after so many output lines were handled by the echo loop.  \<open>ConsoleFails k\<close> is the
    console going away for good after \<open>k\<close> lines were handled: the next \<open>print\<close> of the
    loop raises if there is a line left, and the \<open>print\<close> of line 137 raises.
    \<open>skip_fault\<close> does the same for the \<open>try\<close> of lines 143 to 156 (reading the scratch
    file, or storing into the shared dictionary), and \<open>format_exc\<close> is the traceback text
    printed then.
  \<^item> \<open>all_modules\<close> is the list of that name in \<open>sparktestsupport.modules\<close>;
    \<open>python_implementation\<close> and \<open>coverage_importable\<close> stand for the two helper
    subprocesses of \<open>main\<close>.
  \<^item> \<open>interrupt = Some k\<close>: the operator interrupts the main thread when \<open>k\<close> tasks have
    been completed.
\<close>

record host =
  os_environ :: "unicode \<rightharpoonup> unicode"
  SPARK_HOME :: path
  SPARK_DIST_CLASSPATH :: path
  target_dir :: path
  which :: "unicode \<Rightarrow> unicode option"
  isdir :: "path \<Rightarrow> bool"
  uuid4 :: "nat \<Rightarrow> unicode"
  popen_wait :: "path \<Rightarrow> unicode \<Rightarrow> environment \<Rightarrow> proc_result"
  decode :: "bytes \<Rightarrow> unicode"
  report_fault :: "report_fault option"
  skip_fault :: "unicode \<times> unicode \<Rightarrow> skip_fault option"
  format_exc :: unicode
  all_modules :: "module list"
  python_implementation :: "unicode \<Rightarrow> unicode"
  coverage_importable :: "unicode \<Rightarrow> bool"
  interrupt :: "nat option"

section \<open>The state the script changes\<close>

text \<open>
  What reaches the console: \<open>print(t, end='')\<close>, \<open>print_red(t)\<close> with the colour codes
  left out, and the messages of the logger, each with the values it is formatted with.
\<close>

datatype event =
    Print unicode
  | Print_red unicode
  | Info_running
  | Info_executables "unicode list"
  | Info_implementation unicode unicode
  | Info_starting unicode unicode
  | Info_finished unicode unicode
  | Info_finished_skipped unicode unicode nat
  | Info_passed
  | Exception_running unicode unicode
  | Exception_printing
  | Error_unrecognized unicode
  | Error_no_python3
  | Error_usage unicode

text \<open>
  \<open>LOG_FILE\<close> is the content of the file of that name (\<open>None\<close>: there is no such file),
  \<open>SKIPPED_TESTS\<close> the global of line 52, \<open>None\<close> until line 335 sets it.  \<open>console\<close>
  lists what was printed and logged, oldest first; \<open>uuid_calls\<close> counts the random
  identifiers drawn so far, \<open>made_dirs\<close> lists the arguments of \<open>os.mkdir\<close> and
  \<open>popen_calls\<close> the program, test name and environment of every child requested.
\<close>

record world =
  LOG_FILE :: "bytes option"
  SKIPPED_TESTS :: "(unicode \<times> unicode \<rightharpoonup> unicode list) option"
  console :: "event list"
  uuid_calls :: nat
  made_dirs :: "path list"
  popen_calls :: "(path \<times> unicode \<times> environment) list"

text \<open>
  How a call ends: it returns, it ends the process through \<open>os._exit\<close> or \<open>sys.exit\<close>
  with a status, or an exception leaves it.
\<close>

datatype status = Returned | Exited int | Raises

definition emit :: "event \<Rightarrow> world \<Rightarrow> world" where
  "emit e w = w\<lparr>console := console w @ [e]\<rparr>"

definition print_red :: "unicode \<Rightarrow> world \<Rightarrow> world" where
  "print_red t w = emit (Print_red t) w"

definition mkdir :: "path \<Rightarrow> world \<Rightarrow> world" where
  "mkdir p w = w\<lparr>made_dirs := made_dirs w @ [p]\<rparr>"


section \<open>\<open>run_individual_python_test\<close>\<close>

text \<open>
  The function is followed line by line.  Exceptions are modelled where the script
  handles them, that is inside its three \<open>try\<close> blocks; the calls outside them
  (\<open>os.mkdir\<close>, \<open>which\<close>, the logger) are taken to succeed.  Wall-clock durations and
  the removal of \<open>tmp_dir\<close> after the child has ended (lines 111 to 114) leave no trace
  in the state and are left out.
\<close>

subsection \<open>Lines 69 to 100: the child's environment and its directories\<close>

text \<open>Lines 82 to 84: \<open>while os.path.isdir(tmp_dir): tmp_dir = os.path.join(target_dir, ...)\<close>.
  The loop has no bound; \<open>None\<close> is the run in which every candidate exists.\<close>

partial_function (option) fresh_tmp_dir ::
  "(path \<Rightarrow> bool) \<Rightarrow> (nat \<Rightarrow> unicode) \<Rightarrow> path \<Rightarrow> path \<Rightarrow> nat \<Rightarrow> (path \<times> nat) option" where
  "fresh_tmp_dir is_dir uuid target tmp_dir k =
     (if is_dir tmp_dir then fresh_tmp_dir is_dir uuid target (path_join target (uuid k)) (Suc k)
      else Some (tmp_dir, k))"

text \<open>Lines 88 and 89:
  \<open>while os.path.isdir(metastore_dir): metastore_dir = os.path.join(metastore_dir, ...)\<close>.\<close>

partial_function (option) fresh_metastore_dir ::
  "(path \<Rightarrow> bool) \<Rightarrow> (nat \<Rightarrow> unicode) \<Rightarrow> path \<Rightarrow> nat \<Rightarrow> (path \<times> nat) option" where
  "fresh_metastore_dir is_dir uuid metastore_dir k =
     (if is_dir metastore_dir
      then fresh_metastore_dir is_dir uuid (path_join metastore_dir (uuid k)) (Suc k)
      else Some (metastore_dir, k))"

declare fresh_tmp_dir.simps [code]

declare fresh_metastore_dir.simps [code]

definition quote :: unicode where
  "quote = [39]"

fun join_with :: "unicode \<Rightarrow> unicode list \<Rightarrow> unicode" where
  "join_with sep [] = []"
| "join_with sep [x] = x"
| "join_with sep (x # y # ys) = x @ sep @ join_with sep (y # ys)"

definition java_options :: "path \<Rightarrow> unicode" where
  "java_options tmp_dir =
     str ''-Djava.io.tmpdir='' @ tmp_dir @ str '' -Dio.netty.tryReflectionSetAccessible=true''"

definition spark_args :: "path \<Rightarrow> path \<Rightarrow> unicode list" where
  "spark_args tmp_dir metastore_dir =
     [str ''--conf'',
      str ''spark.driver.extraJavaOptions='' @ quote @ java_options tmp_dir @ quote,
      str ''--conf'',
      str ''spark.executor.extraJavaOptions='' @ quote @ java_options tmp_dir @ quote,
      str ''--conf'',
      str ''spark.sql.warehouse.dir='' @ quote @ metastore_dir @ quote,
      str ''pyspark-shell'']"

text \<open>Lines 69 to 78, 86 and 100, in that order.\<close>

definition task_env :: "host \<Rightarrow> unicode \<Rightarrow> path \<Rightarrow> path \<Rightarrow> environment" where
  "task_env h pyspark_python tmp_dir metastore_dir =
     ((map_option Some \<circ> os_environ h)
        (str ''SPARK_DIST_CLASSPATH'' \<mapsto> Some (SPARK_DIST_CLASSPATH h),
         str ''SPARK_TESTING'' \<mapsto> Some (str ''1''),
         str ''SPARK_PREPEND_CLASSES'' \<mapsto> Some (str ''1''),
         str ''PYSPARK_PYTHON'' \<mapsto> which h pyspark_python,
         str ''PYSPARK_DRIVER_PYTHON'' \<mapsto> which h pyspark_python,
         str ''PYARROW_IGNORE_TIMEZONE'' \<mapsto> Some (str ''1''),
         str ''TMPDIR'' \<mapsto> Some tmp_dir,
         str ''PYSPARK_SUBMIT_ARGS'' \<mapsto>
           Some (join_with (str '' '') (spark_args tmp_dir metastore_dir))))"

subsection \<open>The scratch file\<close>

text \<open>Iterating over a file opened in binary mode yields its lines, each with its line
  feed; a last line without one is yielded as it is.\<close>

definition LF :: char where
  "LF = CHR 0x0A"

fun file_lines :: "bytes \<Rightarrow> bytes list" where
  "file_lines [] = []"
| "file_lines (c # cs) =
     (if c = LF then [c] # file_lines cs
      else (case file_lines cs of [] \<Rightarrow> [[c]] | l # ls \<Rightarrow> (c # l) # ls))"

subsection \<open>Lines 122 to 140: a child that ended with a nonzero code\<close>

text \<open>\<open>open(LOG_FILE, 'ab')\<close> followed by writes: the file is created if need be and
  the data goes to its end.\<close>

definition append_log :: "bytes \<Rightarrow> world \<Rightarrow> world" where
  "append_log data w =
     w\<lparr>LOG_FILE := Some (case LOG_FILE w of None \<Rightarrow> data | Some old \<Rightarrow> old @ data)\<rparr>"

text \<open>Lines 129 to 132.\<close>

fun echo_lines :: "host \<Rightarrow> bytes list \<Rightarrow> world \<Rightarrow> world" where
  "echo_lines h [] w = w"
| "echo_lines h (line # rest) w =
     (let decoded_line = decode h line
      in if \<not> re_match digits_pattern decoded_line
         then echo_lines h rest (emit (Print decoded_line) w)
         else echo_lines h rest w)"

definition had_test_failures :: "unicode \<Rightarrow> unicode \<Rightarrow> unicode" where
  "had_test_failures test_name pyspark_python =
     newline # str ''Had test failures in '' @ test_name @ str '' with '' @ pyspark_python
       @ str ''; see logs.''"

text \<open>
  The \<open>finally\<close> of lines 136 to 140 prints the summary and then calls
  \<open>os._exit(-1)\<close>.  When the console is gone the messages of the logger are dropped by
  the logging module, the \<open>print\<close> of line 137 raises, line 140 is not reached and the
  exception leaves the function.
\<close>

fun console_gone :: "report_fault option \<Rightarrow> bool" where
  "console_gone (Some (ConsoleFails k)) = True"
| "console_gone fault = False"

definition report_failure :: "host \<Rightarrow> unicode \<Rightarrow> unicode \<Rightarrow> bytes \<Rightarrow> world \<Rightarrow> status \<times> world" where
  "report_failure h test_name pyspark_python per_test_output w =
     (let lines = file_lines per_test_output;
          w1 = (case report_fault h of
                  None \<Rightarrow> echo_lines h lines (append_log (concat lines) w)
                | Some OpenFails \<Rightarrow> emit Exception_printing w
                | Some (WriteFails k) \<Rightarrow>
                    emit Exception_printing (append_log (take k (concat lines)) w)
                | Some (PrintFails k) \<Rightarrow>
                    emit Exception_printing
                      (echo_lines h (take k lines) (append_log (concat lines) w))
                | Some (ConsoleFails k) \<Rightarrow>
                    echo_lines h (take k lines) (append_log (concat lines) w))
      in if console_gone (report_fault h) then (Raises, w1)
         else (Exited (- 1), print_red (had_test_failures test_name pyspark_python) w1))"

subsection \<open>Lines 141 to 170: a child that ended with code 0\<close>

definition store_failed :: "host \<Rightarrow> unicode" where
  "store_failed h =
     newline # str ''Got an exception while trying to store skipped test output:'' @ newline
       # format_exc h"

definition record_skipped :: "host \<Rightarrow> unicode \<Rightarrow> unicode \<Rightarrow> bytes \<Rightarrow> world \<Rightarrow> status \<times> world" where
  "record_skipped h test_name pyspark_python per_test_output w =
     (if skip_fault h (pyspark_python, test_name) = Some ReadFails
      then (Exited (- 1), print_red (store_failed h) w)
      else
        let decoded_lines = map (decode h) (file_lines per_test_output);
            skipped_tests = filter (re_search skip_pattern) decoded_lines;
            skipped_counts = length skipped_tests
        in if skipped_counts > 0
           then (case SKIPPED_TESTS w of
                   None \<Rightarrow> (Exited (- 1), print_red (store_failed h) w)
                 | Some registry \<Rightarrow>
                     if skip_fault h (pyspark_python, test_name) = Some StoreFails
                     then (Exited (- 1), print_red (store_failed h) w)
                     else (Returned,
                           emit (Info_finished_skipped pyspark_python test_name skipped_counts)
                             (w\<lparr>SKIPPED_TESTS :=
                                 Some (registry((pyspark_python, test_name) \<mapsto> skipped_tests))\<rparr>)))
           else (Returned, emit (Info_finished pyspark_python test_name) w))"

subsection \<open>The whole function\<close>

text \<open>Lines 82 to 90: the two directory names and the number of identifiers drawn.\<close>

definition acquire :: "host \<Rightarrow> path \<Rightarrow> nat \<Rightarrow> (path \<times> path \<times> nat) option" where
  "acquire h target k0 =
     (case fresh_tmp_dir (isdir h) (uuid4 h) target (path_join target (uuid4 h k0)) (Suc k0) of
        None \<Rightarrow> None
      | Some (tmp_dir, k) \<Rightarrow>
          (case fresh_metastore_dir (isdir h) (uuid4 h) (path_join tmp_dir (uuid4 h k)) (Suc k) of
             None \<Rightarrow> None
           | Some (metastore_dir, k') \<Rightarrow> Some (tmp_dir, metastore_dir, k')))"

definition pyspark :: "host \<Rightarrow> path" where
  "pyspark h = path_join (SPARK_HOME h) (str ''bin/pyspark'')"

text \<open>Lines 85 to 108: the state when the child is requested, and the request.\<close>

definition spawning :: "host \<Rightarrow> unicode \<Rightarrow> unicode \<Rightarrow> path \<Rightarrow> path \<Rightarrow> nat \<Rightarrow> world \<Rightarrow> world" where
  "spawning h test_name pyspark_python tmp_dir metastore_dir k w =
     (let w1 = emit (Info_starting pyspark_python test_name)
                 (mkdir metastore_dir (mkdir tmp_dir (w\<lparr>uuid_calls := k\<rparr>)))
      in w1\<lparr>popen_calls := popen_calls w1
           @ [(pyspark h, test_name, task_env h pyspark_python tmp_dir metastore_dir)]\<rparr>)"

definition run_individual_python_test ::
  "host \<Rightarrow> path \<Rightarrow> unicode \<Rightarrow> unicode \<Rightarrow> world \<Rightarrow> (status \<times> world) option" where
  "run_individual_python_test h target test_name pyspark_python w =
     (case acquire h target (uuid_calls w) of
        None \<Rightarrow> None
      | Some (tmp_dir, metastore_dir, k) \<Rightarrow>
          let env = task_env h pyspark_python tmp_dir metastore_dir;
              w1 = spawning h test_name pyspark_python tmp_dir metastore_dir k w
          in Some
               (case popen_wait h (pyspark h) test_name env of
                  Raised \<Rightarrow> (Exited 1, emit (Exception_running test_name pyspark_python) w1)
                | Finished retcode per_test_output \<Rightarrow>
                    if retcode \<noteq> 0
                    then report_failure h test_name pyspark_python per_test_output w1
                    else record_skipped h test_name pyspark_python per_test_output w1))"

section \<open>The task queue\<close>

text \<open>
  Line 270 makes a \<open>Queue.PriorityQueue\<close>, which keeps its entries in a list and hands
  them to \<open>heapq\<close>: \<open>put\<close> is \<open>heappush\<close>, \<open>get_nowait\<close> raises \<open>Queue.Empty\<close> (here
  \<open>None\<close>) on the empty list and is \<open>heappop\<close> otherwise.  The four functions of
  \<open>heapq\<close> follow the library's Python text; \<open>siftdown_loop\<close> and \<open>siftup_loop\<close> are
  the \<open>while\<close> loops of \<open>_siftdown\<close> and \<open>_siftup\<close>.  \<open>heappop\<close> is never reached with
  an empty list, and every index the four functions read is inside the list.
\<close>

function siftdown_loop :: "('a::linorder) list \<Rightarrow> nat \<Rightarrow> nat \<Rightarrow> 'a \<Rightarrow> 'a list" where
  "siftdown_loop heap startpos pos newitem =
     (if pos > startpos
      then (let parentpos = (pos - 1) div 2; parent = heap ! parentpos
            in if newitem < parent
               then siftdown_loop (heap[pos := parent]) startpos parentpos newitem
               else heap[pos := newitem])
      else heap[pos := newitem])"
  by pat_completeness auto
termination
  by (relation "measure (\<lambda>(heap, startpos, pos, newitem). pos)") auto

declare siftdown_loop.simps [simp del]

definition siftdown :: "('a::linorder) list \<Rightarrow> nat \<Rightarrow> nat \<Rightarrow> 'a list" where
  "siftdown heap startpos pos = siftdown_loop heap startpos pos (heap ! pos)"

function siftup_loop :: "('a::linorder) list \<Rightarrow> nat \<Rightarrow> nat \<Rightarrow> 'a list \<times> nat" where
  "siftup_loop heap pos endpos =
     (let childpos = 2 * pos + 1
      in if childpos < endpos
         then (let rightpos = childpos + 1;
                   childpos = (if rightpos < endpos \<and> \<not> heap ! childpos < heap ! rightpos
                               then rightpos else childpos)
               in siftup_loop (heap[pos := heap ! childpos]) childpos endpos)
         else (heap, pos))"
  by pat_completeness auto
termination
  by (relation "measure (\<lambda>(heap, pos, endpos). endpos - pos)") (auto simp add: Let_def)

declare siftup_loop.simps [simp del]

definition siftup :: "('a::linorder) list \<Rightarrow> nat \<Rightarrow> 'a list" where
  "siftup heap pos =
     (let newitem = heap ! pos;
          (heap', pos') = siftup_loop heap pos (length heap)
      in siftdown (heap'[pos' := newitem]) pos pos')"

definition heappush :: "('a::linorder) list \<Rightarrow> 'a \<Rightarrow> 'a list" where
  "heappush heap item = siftdown (heap @ [item]) 0 (length heap)"

definition heappop :: "('a::linorder) list \<Rightarrow> 'a \<times> 'a list" where
  "heappop heap =
     (let lastelt = last heap; heap' = butlast heap
      in if heap' \<noteq> [] then (heap' ! 0, siftup (heap'[0 := lastelt]) 0) else (lastelt, heap'))"

text \<open>
  The entries are the tuples \<open>(priority, (python_exec, test_goal))\<close> of lines 293 and
  296, which Python compares component by component, the two texts code point by code
  point.
\<close>

type_synonym task = "int \<times> unicode \<times> unicode"

definition put :: "('a::linorder) \<Rightarrow> 'a list \<Rightarrow> 'a list" where
  "put item queue = heappush queue item"

definition get_nowait :: "('a::linorder) list \<Rightarrow> ('a \<times> 'a list) option" where
  "get_nowait queue = (if queue = [] then None else Some (heappop queue))"

lemma length_siftdown_loop: "length (siftdown_loop heap startpos pos newitem) = length heap"
  by (induction heap startpos pos newitem rule: siftdown_loop.induct)
    (subst siftdown_loop.simps, simp add: Let_def)

lemma siftup_loop_stop:
  "\<not> 2 * pos + 1 < endpos \<Longrightarrow> siftup_loop heap pos endpos = (heap, pos)"
  by (subst siftup_loop.simps) (simp add: Let_def)

lemma siftup_loop_step:
  "2 * pos + 1 < endpos \<Longrightarrow>
     siftup_loop heap pos endpos =
       (let c = (if 2 * pos + 2 < endpos \<and> \<not> heap ! (2 * pos + 1) < heap ! (2 * pos + 2)
                 then 2 * pos + 2 else 2 * pos + 1)
        in siftup_loop (heap[pos := heap ! c]) c endpos)"
  by (subst siftup_loop.simps) (simp add: Let_def)

lemma length_siftup_loop: "length (fst (siftup_loop heap pos endpos)) = length heap"
proof (induction "endpos - pos" arbitrary: heap pos rule: less_induct)
  case less
  show ?case
  proof (cases "2 * pos + 1 < endpos")
    case True
    define c where "c = (if 2 * pos + 2 < endpos \<and> \<not> heap ! (2 * pos + 1) < heap ! (2 * pos + 2)
                 then 2 * pos + 2 else 2 * pos + 1)"
    have "endpos - c < endpos - pos" using True by (auto simp add: c_def)
    from less [OF this, of "heap[pos := heap ! c]"] True show ?thesis
      by (simp add: siftup_loop_step c_def Let_def)
  next
    case False
    then show ?thesis by (simp add: siftup_loop_stop)
  qed
qed

lemma length_siftup: "length (siftup heap pos) = length heap"
proof -
  obtain heap' pos' where r: "siftup_loop heap pos (length heap) = (heap', pos')"
    by (cases "siftup_loop heap pos (length heap)")
  with length_siftup_loop [of heap pos "length heap"] have "length heap' = length heap" by simp
  with r show ?thesis
    by (simp add: siftup_def siftdown_def Let_def length_siftdown_loop)
qed

lemma length_heappop: "heap \<noteq> [] \<Longrightarrow> Suc (length (snd (heappop heap))) = length heap"
  by (cases heap rule: rev_cases) (simp_all add: heappop_def Let_def length_siftup)

lemma get_nowait_length: "get_nowait queue = Some (item, rest) \<Longrightarrow> length rest < length queue"
  using length_heappop [of queue] by (auto simp add: get_nowait_def split: if_splits)

text \<open>Calling \<open>get_nowait\<close> until the queue is empty.\<close>

function drain :: "('a::linorder) list \<Rightarrow> 'a list" where
  "drain queue = (case get_nowait queue of None \<Rightarrow> [] | Some (item, rest) \<Rightarrow> item # drain rest)"
  by pat_completeness auto
termination
  by (relation "measure length") (auto simp add: get_nowait_length)

declare drain.simps [simp del]

section \<open>\<open>main\<close>\<close>

text \<open>
  Line 45: the dictionary from names to the modules that have Python test goals, the
  root module left out; a later module of the same name replaces an earlier one.
\<close>

definition module_table :: "host \<Rightarrow> (unicode \<times> module) list" where
  "module_table h =
     [(name m, m). m \<leftarrow> all_modules h, python_test_goals m \<noteq> [], name m \<noteq> str ''root'']"

definition python_modules :: "host \<Rightarrow> unicode \<rightharpoonup> module" where
  "python_modules h = map_of (rev (module_table h))"

text \<open>\<open>sorted(python_modules.keys())\<close>.\<close>

definition python_module_names :: "host \<Rightarrow> unicode list" where
  "python_module_names h = sort (remdups (map fst (module_table h)))"

text \<open>
  What \<open>parse_opts()\<close> returns (line 243): the namespace built by the option parser.
  Lines 224 and 225 let no \<open>parallelism\<close> below 1 through.
\<close>

record opts =
  python_executables :: unicode
  modules :: unicode
  parallelism :: int
  verbose :: bool
  testnames :: "unicode option"

definition comma :: nat where
  "comma = 44"

text \<open>\<open>s.split(',')\<close>.\<close>

fun split_on :: "nat \<Rightarrow> unicode \<Rightarrow> unicode list" where
  "split_on sep [] = [[]]"
| "split_on sep (c # cs) =
     (if c = sep then [] # split_on sep cs
      else (case split_on sep cs of [] \<Rightarrow> [[c]] | l # ls \<Rightarrow> (c # l) # ls))"

definition startswith :: "unicode \<Rightarrow> unicode \<Rightarrow> bool" where
  "startswith s prefix = (take (length prefix) s = prefix)"

definition heavy_tests :: "unicode list" where
  "heavy_tests =
     [str ''pyspark.streaming.tests'', str ''pyspark.mllib.tests'', str ''pyspark.tests'',
      str ''pyspark.sql.tests'', str ''pyspark.ml.tests'']"

text \<open>Lines 287 to 292.\<close>

definition priority_of :: "unicode \<Rightarrow> int" where
  "priority_of test_goal = (if list_ex (startswith test_goal) heavy_tests then 0 else 100)"

text \<open>Lines 257 to 264; \<open>Inl\<close> carries the first module name that is not in the table.\<close>

fun resolve_modules :: "(unicode \<rightharpoonup> module) \<Rightarrow> unicode list \<Rightarrow> unicode + module list" where
  "resolve_modules table [] = Inr []"
| "resolve_modules table (module_name # rest) =
     (case table module_name of
        None \<Rightarrow> Inl module_name
      | Some m \<Rightarrow>
          (case resolve_modules table rest of Inl e \<Rightarrow> Inl e | Inr ms \<Rightarrow> Inr (m # ms)))"

datatype selection = Modules "module list" | Testnames "unicode list"

text \<open>Lines 283 to 296 for one executable: the entries it puts, in the order it puts them.\<close>

definition tasks_of_exec :: "host \<Rightarrow> selection \<Rightarrow> unicode \<Rightarrow> task list" where
  "tasks_of_exec h sel python_exec =
     (case sel of
        Modules modules_to_test \<Rightarrow>
          concat (map (\<lambda>m.
            if python_implementation h python_exec \<notin> set (excluded_python_implementations m)
            then map (\<lambda>test_goal. (priority_of test_goal, (python_exec, test_goal)))
                   (python_test_goals m)
            else []) modules_to_test)
      | Testnames testnames_to_test \<Rightarrow>
          map (\<lambda>test_goal. (0, (python_exec, test_goal))) testnames_to_test)"

definition coverage_missing :: "unicode \<Rightarrow> unicode" where
  "coverage_missing python_exec =
     str ''Coverage is not installed in Python executable '' @ quote @ python_exec @ quote
       @ str '' but '' @ quote @ str ''COVERAGE_PROCESS_START'' @ quote
       @ str '' environment variable is set, exiting.''"

text \<open>Lines 271 to 296.\<close>

fun fill_queue ::
  "host \<Rightarrow> selection \<Rightarrow> unicode list \<Rightarrow> task list \<Rightarrow> world \<Rightarrow> status \<times> task list \<times> world" where
  "fill_queue h sel [] task_queue w = (Returned, task_queue, w)"
| "fill_queue h sel (python_exec # rest) task_queue w =
     (if os_environ h (str ''COVERAGE_PROCESS_START'') \<noteq> None
         \<and> \<not> coverage_importable h python_exec
      then (Exited (- 1), task_queue, print_red (coverage_missing python_exec) w)
      else fill_queue h sel rest
             (fold put (tasks_of_exec h sel python_exec) task_queue)
             (emit (Info_implementation python_exec (python_implementation h python_exec)) w))"

text \<open>
  Lines 303 to 312, one worker on its own, under the \<open>task_queue.join()\<close> of lines 319
  to 323.  The workers are daemon threads: when the operator interrupts the main thread
  after \<open>completed\<close> tasks, lines 322 and 323 run and no further task is taken.  An exit
  inside \<open>run_individual_python_test\<close> ends the process there; an exception that leaves
  the call passes the \<open>finally\<close> of line 311 and ends the worker's thread, not the
  process.
\<close>

function process_queue ::
  "host \<Rightarrow> path \<Rightarrow> task list \<Rightarrow> nat \<Rightarrow> world \<Rightarrow> (status \<times> world) option" where
  "process_queue h target task_queue completed w =
     (if interrupt h = Some completed
      then Some (Exited (- 1), print_red (str ''Exiting due to interrupt'') w)
      else (case get_nowait task_queue of
              None \<Rightarrow> Some (Returned, w)
            | Some ((priority, (python_exec, test_goal)), rest) \<Rightarrow>
                (case run_individual_python_test h target test_goal python_exec w of
                   None \<Rightarrow> None
                 | Some (Exited c, w') \<Rightarrow> Some (Exited c, w')
                 | Some (Raises, w') \<Rightarrow> Some (Raises, w')
                 | Some (Returned, w') \<Rightarrow> process_queue h target rest (Suc completed) w')))"
  by pat_completeness auto
termination
  by (relation "measure (\<lambda>(h, target, task_queue, completed, w). length task_queue)")
    (auto simp add: get_nowait_length)

declare process_queue.simps [simp del]

text \<open>
  Lines 244 to 301: an exit status, or the filled queue.  Of the log lines only those of
  lines 250, 254 and 280 are kept.  An exception that leaves \<open>main\<close> would end the script
  with status 1; \<open>fill_queue\<close> raises none.
\<close>

definition prepare :: "host \<Rightarrow> opts \<Rightarrow> world \<Rightarrow> int \<times> world + task list \<times> world" where
  "prepare h opts w =
     (let w1 = (emit Info_running w)\<lparr>LOG_FILE := None\<rparr>;
          python_execs = split_on comma (python_executables opts);
          w2 = emit (Info_executables python_execs) w1
      in case (case testnames opts of
                 None \<Rightarrow>
                   (case resolve_modules (python_modules h) (split_on comma (modules opts)) of
                      Inl module_name \<Rightarrow> Inl module_name
                    | Inr ms \<Rightarrow> Inr (Modules ms))
               | Some names \<Rightarrow> Inr (Testnames (split_on comma names))) of
           Inl module_name \<Rightarrow> Inl (- 1, emit (Error_unrecognized module_name) w2)
         | Inr sel \<Rightarrow>
             (case fill_queue h sel python_execs [] w2 of
                (Exited c, task_queue, w3) \<Rightarrow> Inl (c, w3)
              | (Raises, task_queue, w3) \<Rightarrow> Inl (1, w3)
              | (Returned, task_queue, w3) \<Rightarrow>
                  Inr (task_queue,
                       if isdir h (target_dir h) then w3 else mkdir (target_dir h) w3)))"

(*POOL*)


section \<open>A host and a state for the examples\<close>

text \<open>
  Nothing exists on this host's file system, its environment is empty, every executable
  is found under \<open>/usr/bin\<close>, every child behaves as \<open>r\<close> says, output is ASCII and
  nothing else goes wrong.
\<close>

definition example_host :: "proc_result \<Rightarrow> host" where
  "example_host r =
     \<lparr>os_environ = Map.empty,
      SPARK_HOME = str ''/spark'',
      SPARK_DIST_CLASSPATH = str ''/spark/assembly/target/scala-2.12/jars/*'',
      target_dir = str ''/spark/python/target'',
      which = (\<lambda>x. Some (str ''/usr/bin/'' @ x)),
      isdir = (\<lambda>p. False),
      uuid4 = (\<lambda>k. str ''uuid'' @ [48 + k]),
      popen_wait = (\<lambda>prog test_name env. r),
      decode = map of_char,
      report_fault = None,
      skip_fault = (\<lambda>key. None),
      format_exc = str ''Traceback'',
      all_modules = [],
      python_implementation = (\<lambda>python_exec. str ''CPython''),
      coverage_importable = (\<lambda>python_exec. True),
      interrupt = None\<rparr>"

definition example_world :: world where
  "example_world =
     \<lparr>LOG_FILE = None, SKIPPED_TESTS = Some Map.empty, console = [], uuid_calls = 0,
      made_dirs = [], popen_calls = []\<rparr>"

text \<open>An ASCII literal as the bytes a child writes.\<close>

definition bytes_of :: "string \<Rightarrow> bytes" where
  "bytes_of s = s"

text \<open>Options that name one executable and one test.\<close>

definition example_opts :: opts where
  "example_opts =
     \<lparr>python_executables = str ''python3'', modules = [], parallelism = 4, verbose = False,
      testnames = Some (str ''pyspark.a'')\<rparr>"

section \<open>Notions the claims are stated with\<close>

text \<open>A text begins with one or more decimal digits.\<close>

definition is_digit :: "nat \<Rightarrow> bool" where
  "is_digit c = (48 \<le> c \<and> c \<le> 57)"

definition begins_with_digits :: "unicode \<Rightarrow> bool" where
  "begins_with_digits t = (takeWhile is_digit t \<noteq> [])"

text \<open>The keys that lines 70 to 100 write into the child's environment.\<close>

definition overridden :: "unicode set" where
  "overridden =
     {str ''SPARK_DIST_CLASSPATH'', str ''SPARK_TESTING'', str ''SPARK_PREPEND_CLASSES'',
      str ''PYSPARK_PYTHON'', str ''PYSPARK_DRIVER_PYTHON'', str ''PYARROW_IGNORE_TIMEZONE'',
      str ''TMPDIR'', str ''PYSPARK_SUBMIT_ARGS''}"

text \<open>
  The skip marker as the specification words it: \<open>test_\<close>, any text, a parenthesis opening
  with \<open>pyspark.\<close>, any text, the closing parenthesis, the literal \<open>...\<close> between two
  spaces, and \<open>skip\<close> or \<open>SKIP\<close>.
\<close>

definition spec_skip_pattern :: regex where
  "spec_skip_pattern =
     Seq (lits (str ''test_'')) (Seq (Star Dot) (Seq (lits (str '' (pyspark.'')) (Seq (Star Dot)
       (Seq (lits (str '') ... '')) (Alt (lits (str ''skip'')) (lits (str ''SKIP'')))))))"

text \<open>
  The order the specification promises for the queue: by priority, tasks of equal
  priority in the order in which they were put (\<open>sort_key\<close> is stable).
\<close>

definition insertion_tie_break :: "task list \<Rightarrow> task list" where
  "insertion_tie_break tasks = sort_key fst tasks"

text \<open>
  What the log file holds, nothing when there is no file; a requested child that ended
  with a nonzero code and the given output.
\<close>

definition log_content :: "world \<Rightarrow> bytes" where
  "log_content w = (case LOG_FILE w of None \<Rightarrow> [] | Some old \<Rightarrow> old)"

definition nonzero_exit :: "host \<Rightarrow> bytes \<Rightarrow> path \<times> unicode \<times> environment \<Rightarrow> bool" where
  "nonzero_exit h out call =
     (case call of (prog, test_name, env) \<Rightarrow>
        \<exists>retcode. popen_wait h prog test_name env = Finished retcode out \<and> retcode \<noteq> 0)"

text \<open>
  The heap order on a list: no entry is below its parent.  \<open>heap_but\<close> leaves out the
  edges at one node, \<open>children_ge\<close> bounds the children of a node from below, and
  \<open>hole_inv\<close> is what holds while \<open>_siftup\<close> moves its gap down.
\<close>

definition parent :: "nat \<Rightarrow> nat" where
  "parent i = (i - 1) div 2"

definition is_heap :: "('a::linorder) list \<Rightarrow> bool" where
  "is_heap xs = (\<forall>i. 0 < i \<and> i < length xs \<longrightarrow> xs ! parent i \<le> xs ! i)"

text \<open>A heap but for the node \<open>pos\<close>: every edge that does not touch \<open>pos\<close> is in order.\<close>

definition heap_but :: "('a::linorder) list \<Rightarrow> nat \<Rightarrow> bool" where
  "heap_but xs pos =
     (\<forall>i. 0 < i \<and> i < length xs \<and> i \<noteq> pos \<and> parent i \<noteq> pos \<longrightarrow> xs ! parent i \<le> xs ! i)"

definition children_ge :: "('a::linorder) list \<Rightarrow> nat \<Rightarrow> 'a \<Rightarrow> bool" where
  "children_ge xs pos x = (\<forall>c. 0 < c \<and> c < length xs \<and> parent c = pos \<longrightarrow> x \<le> xs ! c)"

definition hole_inv :: "('a::linorder) list \<Rightarrow> nat \<Rightarrow> bool" where
  "hole_inv heap pos =
     (heap_but heap pos \<and> pos < length heap
      \<and> (pos > 0 \<longrightarrow> children_ge heap pos (heap ! parent pos)))"

section \<open>The matcher decides the patterns' languages\<close>

lemma nullable_iff: "nullable r \<longleftrightarrow> [] \<in> lang r"
  by (induction r) (auto intro: star_words.star_nil)

lemma lang_seq: "lang (seq r s) = lang (Seq r s)"
  by auto

lemma lang_alt: "lang (alt r s) = lang (Alt r s)"
  by auto

lemma star_words_cons:
  "c # w \<in> star_words L \<longleftrightarrow> (\<exists>u v. w = u @ v \<and> c # u \<in> L \<and> v \<in> star_words L)"
proof
  assume "c # w \<in> star_words L"
  then show "\<exists>u v. w = u @ v \<and> c # u \<in> L \<and> v \<in> star_words L"
  proof (induction "c # w" rule: star_words.induct)
    case (star_app u v)
    show ?case
    proof (cases u)
      case Nil
      with star_app show ?thesis by simp
    next
      case (Cons d u')
      with star_app show ?thesis by auto
    qed
  qed
next
  assume "\<exists>u v. w = u @ v \<and> c # u \<in> L \<and> v \<in> star_words L"
  then obtain u v where "w = u @ v" "c # u \<in> L" "v \<in> star_words L" by blast
  then show "c # w \<in> star_words L"
    using star_words.star_app [of "c # u" L v] by simp
qed

lemma lang_deriv: "lang (deriv c r) = {w. c # w \<in> lang r}"
proof (induction r)
  case (Seq r s)
  show ?case
  proof (cases "nullable r")
    case True
    then have "[] \<in> lang r" by (simp add: nullable_iff)
    then show ?thesis using Seq True
      by (auto simp add: lang_seq lang_alt Cons_eq_append_conv simp del: seq.simps alt.simps)
  next
    case False
    then have "[] \<notin> lang r" by (simp add: nullable_iff)
    then show ?thesis using Seq False
      by (auto simp add: lang_seq Cons_eq_append_conv simp del: seq.simps alt.simps)
  qed
next
  case (Star r)
  then show ?case
    by (auto simp add: lang_seq star_words_cons simp del: seq.simps alt.simps)
qed (auto simp add: lang_alt simp del: seq.simps alt.simps)

lemma re_match_iff: "re_match r s \<longleftrightarrow> (\<exists>u v. s = u @ v \<and> u \<in> lang r)"
proof (induction s arbitrary: r)
  case Nil
  then show ?case by (simp add: nullable_iff)
next
  case (Cons c cs)
  show ?case
  proof
    assume "re_match r (c # cs)"
    then consider "nullable r" | "re_match (deriv c r) cs" by auto
    then show "\<exists>u v. c # cs = u @ v \<and> u \<in> lang r"
    proof cases
      case 1
      then have "[] \<in> lang r" by (simp add: nullable_iff)
      then show ?thesis by (metis append_Nil)
    next
      case 2
      then obtain u v where "cs = u @ v" "u \<in> lang (deriv c r)" using Cons.IH by blast
      then have "c # cs = (c # u) @ v" "c # u \<in> lang r" by (simp_all add: lang_deriv)
      then show ?thesis by blast
    qed
  next
    assume "\<exists>u v. c # cs = u @ v \<and> u \<in> lang r"
    then obtain u v where uv: "c # cs = u @ v" "u \<in> lang r" by blast
    show "re_match r (c # cs)"
    proof (cases u)
      case Nil
      with uv have "nullable r" by (simp add: nullable_iff)
      then show ?thesis by simp
    next
      case (Cons d u')
      with uv have "cs = u' @ v" "u' \<in> lang (deriv c r)" by (simp_all add: lang_deriv)
      then have "re_match (deriv c r) cs" using Cons.IH by blast
      then show ?thesis by simp
    qed
  qed
qed

lemma re_search_iff: "re_search r s \<longleftrightarrow> (\<exists>p u v. s = p @ u @ v \<and> u \<in> lang r)"
proof (induction s)
  case Nil
  then show ?case by (simp add: nullable_iff)
next
  case (Cons c cs)
  show ?case
  proof
    assume "re_search r (c # cs)"
    then consider "re_match r (c # cs)" | "re_search r cs" by auto
    then show "\<exists>p u v. c # cs = p @ u @ v \<and> u \<in> lang r"
    proof cases
      case 1
      then obtain u v where "c # cs = u @ v" "u \<in> lang r" by (auto simp add: re_match_iff)
      then have "c # cs = [] @ u @ v" by simp
      with \<open>u \<in> lang r\<close> show ?thesis by blast
    next
      case 2
      then obtain p u v where "cs = p @ u @ v" "u \<in> lang r" using Cons.IH by blast
      then have "c # cs = (c # p) @ u @ v" by simp
      with \<open>u \<in> lang r\<close> show ?thesis by blast
    qed
  next
    assume "\<exists>p u v. c # cs = p @ u @ v \<and> u \<in> lang r"
    then obtain p u v where puv: "c # cs = p @ u @ v" "u \<in> lang r" by blast
    show "re_search r (c # cs)"
    proof (cases p)
      case Nil
      with puv have "re_match r (c # cs)" by (auto simp add: re_match_iff)
      then show ?thesis by simp
    next
      case (Cons d p')
      with puv have "cs = p' @ u @ v" by simp
      with puv have "re_search r cs" using Cons.IH by blast
      then show ?thesis by simp
    qed
  qed
qed

lemma lang_lits: "lang (lits s) = {s}"
  by (induction s) auto

lemma star_words_dot: "star_words (lang Dot) = {w. newline \<notin> set w}"
proof (rule set_eqI, rule iffI)
  fix w assume "w \<in> star_words (lang Dot)"
  then show "w \<in> {w. newline \<notin> set w}"
    by (induction rule: star_words.induct) auto
next
  fix w assume "w \<in> {w. newline \<notin> set w}"
  then show "w \<in> star_words (lang Dot)"
  proof (induction w)
    case Nil
    show ?case by (rule star_words.star_nil)
  next
    case (Cons c w)
    then have "[c] \<in> lang Dot" "w \<in> star_words (lang Dot)" by auto
    then show ?case using star_words.star_app [of "[c]" "lang Dot" w] by simp
  qed
qed

section \<open>What one call of \<open>run_individual_python_test\<close> does\<close>

lemma run_raised:
  assumes "acquire h target (uuid_calls w) = Some (tmp_dir, metastore_dir, k)"
    and "popen_wait h (pyspark h) test_name (task_env h pyspark_python tmp_dir metastore_dir) = Raised"
  shows "run_individual_python_test h target test_name pyspark_python w =
           Some (Exited 1, emit (Exception_running test_name pyspark_python)
                   (spawning h test_name pyspark_python tmp_dir metastore_dir k w))"
  using assms by (simp add: run_individual_python_test_def)

lemma run_failed:
  assumes "acquire h target (uuid_calls w) = Some (tmp_dir, metastore_dir, k)"
    and "popen_wait h (pyspark h) test_name (task_env h pyspark_python tmp_dir metastore_dir)
           = Finished retcode per_test_output"
    and "retcode \<noteq> 0"
  shows "run_individual_python_test h target test_name pyspark_python w =
           Some (report_failure h test_name pyspark_python per_test_output
                   (spawning h test_name pyspark_python tmp_dir metastore_dir k w))"
  using assms by (simp add: run_individual_python_test_def)

lemma run_passed:
  assumes "acquire h target (uuid_calls w) = Some (tmp_dir, metastore_dir, k)"
    and "popen_wait h (pyspark h) test_name (task_env h pyspark_python tmp_dir metastore_dir)
           = Finished 0 per_test_output"
  shows "run_individual_python_test h target test_name pyspark_python w =
           Some (record_skipped h test_name pyspark_python per_test_output
                   (spawning h test_name pyspark_python tmp_dir metastore_dir k w))"
  using assms by (simp add: run_individual_python_test_def)

lemma console_spawning:
  "console (spawning h test_name pyspark_python tmp_dir metastore_dir k w) =
     console w @ [Info_starting pyspark_python test_name]"
  by (simp add: spawning_def Let_def emit_def mkdir_def)

lemma LOG_FILE_spawning:
  "LOG_FILE (spawning h test_name pyspark_python tmp_dir metastore_dir k w) = LOG_FILE w"
  by (simp add: spawning_def Let_def emit_def mkdir_def)

lemma SKIPPED_TESTS_spawning:
  "SKIPPED_TESTS (spawning h test_name pyspark_python tmp_dir metastore_dir k w) = SKIPPED_TESTS w"
  by (simp add: spawning_def Let_def emit_def mkdir_def)

lemma popen_calls_spawning:
  "popen_calls (spawning h test_name pyspark_python tmp_dir metastore_dir k w) =
     popen_calls w @ [(pyspark h, test_name, task_env h pyspark_python tmp_dir metastore_dir)]"
  by (simp add: spawning_def Let_def emit_def mkdir_def)

lemma acquire_example:
  "acquire (example_host r) (str ''/t'') 0 = Some (str ''/t/uuid0'', str ''/t/uuid0/uuid1'', 2)"
  by (simp add: acquire_def example_host_def fresh_tmp_dir.simps fresh_metastore_dir.simps
      path_join_def str_def slash_def)

lemma re_match_Zero: "\<not> re_match Zero s"
  by (induction s) auto

lemma re_match_digits: "re_match digits_pattern t \<longleftrightarrow> begins_with_digits t"
proof (cases t)
  case Nil
  then show ?thesis by (simp add: digits_pattern_def Plus_def begins_with_digits_def)
next
  case (Cons c cs)
  show ?thesis
  proof (cases "is_digit c")
    case True
    then have "deriv c digits_pattern = Star (Range 48 57)"
      by (simp add: digits_pattern_def Plus_def is_digit_def)
    then have "re_match digits_pattern (c # cs)"
      by (cases cs) simp_all
    with True Cons show ?thesis by (simp add: begins_with_digits_def)
  next
    case False
    then have "deriv c digits_pattern = Zero"
      by (auto simp add: digits_pattern_def Plus_def is_digit_def)
    moreover have "\<not> nullable digits_pattern"
      by (simp add: digits_pattern_def Plus_def)
    ultimately have "\<not> re_match digits_pattern (c # cs)"
      by (simp add: re_match_Zero)
    with False Cons show ?thesis by (simp add: begins_with_digits_def)
  qed
qed

lemma console_echo_lines:
  "console (echo_lines h ls w) =
     console w @ map Print (filter (\<lambda>t. \<not> begins_with_digits t) (map (decode h) ls))"
  by (induction ls arbitrary: w) (simp_all add: Let_def emit_def re_match_digits)

lemma console_append_log: "console (append_log d w) = console w"
  by (simp add: append_log_def)

lemma LOG_FILE_echo_lines: "LOG_FILE (echo_lines h ls w) = LOG_FILE w"
  by (induction ls arbitrary: w) (simp_all add: Let_def emit_def)

lemma concat_file_lines: "concat (file_lines b) = b"
  by (induction b) (auto split: list.splits)

section \<open>The claims\<close>

text \<open>
  C9.  When the output of a failed task is echoed, the lines printed are, in order, exactly
  the decoded lines of the captured output that do not begin with one or more decimal
  digits; a line that begins with a digit is not printed.  The echo sits between the
  start message and the closing summary.
\<close>

theorem echo_drops_digit_lines:
  assumes "acquire h target (uuid_calls w) = Some (tmp_dir, metastore_dir, k)"
    and "popen_wait h (pyspark h) test_name (task_env h pyspark_python tmp_dir metastore_dir)
           = Finished retcode per_test_output"
    and "retcode \<noteq> 0"
    and "report_fault h = None"
  shows "\<exists>w'. run_individual_python_test h target test_name pyspark_python w
                 = Some (Exited (- 1), w')
           \<and> console w' =
               console w @ [Info_starting pyspark_python test_name]
                 @ map Print (filter (\<lambda>t. \<not> begins_with_digits t)
                     (map (decode h) (file_lines per_test_output)))
                 @ [Print_red (had_test_failures test_name pyspark_python)]"
  using assms(4)
  by (simp add: run_failed [OF assms(1,2,3)] report_failure_def Let_def print_red_def emit_def
      console_echo_lines console_append_log console_spawning)

theorem echo_drops_digit_lines_witness:
  "\<exists>w'. run_individual_python_test
           (example_host (Finished 1 (bytes_of (''12:00 INFO x'' @ [LF] @ ''FAIL: test_a'' @ [LF]))))
           (str ''/t'') (str ''pyspark.a'') (str ''python3'') example_world = Some (Exited (- 1), w')
     \<and> console w' =
          [Info_starting (str ''python3'') (str ''pyspark.a''),
           Print (str ''FAIL: test_a'' @ [10]),
           Print_red (had_test_failures (str ''pyspark.a'') (str ''python3''))]"
proof -
  let ?out = "bytes_of (''12:00 INFO x'' @ [LF] @ ''FAIL: test_a'' @ [LF])"
  let ?h = "example_host (Finished 1 ?out)"
  have a: "acquire ?h (str ''/t'') (uuid_calls example_world)
             = Some (str ''/t/uuid0'', str ''/t/uuid0/uuid1'', 2)"
    by (simp add: acquire_example example_world_def)
  have p: "popen_wait ?h (pyspark ?h) (str ''pyspark.a'')
             (task_env ?h (str ''python3'') (str ''/t/uuid0'') (str ''/t/uuid0/uuid1''))
             = Finished 1 ?out"
    by (simp add: example_host_def)
  have f: "report_fault ?h = None"
    by (simp add: example_host_def)
  show ?thesis
    using echo_drops_digit_lines [OF a p _ f]
    by (simp add: example_host_def example_world_def bytes_of_def LF_def str_def
        begins_with_digits_def is_digit_def)
qed

lemma run_cases:
  assumes "run_individual_python_test h target test_name pyspark_python w = Some (st, w')"
  obtains tmp_dir metastore_dir k where
    "acquire h target (uuid_calls w) = Some (tmp_dir, metastore_dir, k)"
proof (cases "acquire h target (uuid_calls w)")
  case None
  with assms show ?thesis by (simp add: run_individual_python_test_def)
next
  case (Some a)
  then show ?thesis using that by (cases a) auto
qed

lemma popen_calls_echo_lines: "popen_calls (echo_lines h ls w) = popen_calls w"
  by (induction ls arbitrary: w) (simp_all add: Let_def emit_def)

lemma popen_calls_report_failure:
  "popen_calls (snd (report_failure h test_name pyspark_python out w)) = popen_calls w"
  by (simp add: report_failure_def Let_def print_red_def emit_def append_log_def
      popen_calls_echo_lines split: option.splits report_fault.splits)

lemma popen_calls_record_skipped:
  "popen_calls (snd (record_skipped h test_name pyspark_python out w)) = popen_calls w"
  by (simp add: record_skipped_def Let_def print_red_def emit_def split: option.splits)

lemma popen_calls_run:
  assumes "run_individual_python_test h target test_name pyspark_python w = Some (st, w')"
    and "acquire h target (uuid_calls w) = Some (tmp_dir, metastore_dir, k)"
  shows "popen_calls w' = popen_calls w
             @ [(pyspark h, test_name, task_env h pyspark_python tmp_dir metastore_dir)]"
proof -
  let ?w1 = "spawning h test_name pyspark_python tmp_dir metastore_dir k w"
  let ?env = "task_env h pyspark_python tmp_dir metastore_dir"
  have "popen_calls w' = popen_calls ?w1"
  proof (cases "popen_wait h (pyspark h) test_name ?env")
    case Raised
    with assms show ?thesis by (auto simp add: run_raised emit_def)
  next
    case (Finished retcode out)
    show ?thesis
    proof (cases "retcode = 0")
      case True
      with assms Finished have "record_skipped h test_name pyspark_python out ?w1 = (st, w')"
        by (simp add: run_passed)
      then have "w' = snd (record_skipped h test_name pyspark_python out ?w1)" by simp
      then show ?thesis by (simp only: popen_calls_record_skipped)
    next
      case False
      with assms Finished have "report_failure h test_name pyspark_python out ?w1 = (st, w')"
        by (simp add: run_failed)
      then have "w' = snd (report_failure h test_name pyspark_python out ?w1)" by simp
      then show ?thesis by (simp only: popen_calls_report_failure)
    qed
  qed
  then show ?thesis by (simp add: popen_calls_spawning)
qed

lemma task_env_other:
  "key \<notin> overridden \<Longrightarrow>
     task_env h pyspark_python tmp_dir metastore_dir key = map_option Some (os_environ h key)"
  by (simp add: task_env_def overridden_def)

lemma task_env_values:
  "task_env h pyspark_python tmp_dir metastore_dir (str ''SPARK_DIST_CLASSPATH'')
     = Some (Some (SPARK_DIST_CLASSPATH h))"
  "task_env h pyspark_python tmp_dir metastore_dir (str ''SPARK_TESTING'') = Some (Some (str ''1''))"
  "task_env h pyspark_python tmp_dir metastore_dir (str ''SPARK_PREPEND_CLASSES'')
     = Some (Some (str ''1''))"
  "task_env h pyspark_python tmp_dir metastore_dir (str ''PYSPARK_PYTHON'')
     = Some (which h pyspark_python)"
  "task_env h pyspark_python tmp_dir metastore_dir (str ''PYSPARK_DRIVER_PYTHON'')
     = Some (which h pyspark_python)"
  "task_env h pyspark_python tmp_dir metastore_dir (str ''PYARROW_IGNORE_TIMEZONE'')
     = Some (Some (str ''1''))"
  "task_env h pyspark_python tmp_dir metastore_dir (str ''TMPDIR'') = Some (Some tmp_dir)"
  "task_env h pyspark_python tmp_dir metastore_dir (str ''PYSPARK_SUBMIT_ARGS'')
     = Some (Some (str ''--conf spark.driver.extraJavaOptions='' @ [39]
         @ str ''-Djava.io.tmpdir='' @ tmp_dir
         @ str '' -Dio.netty.tryReflectionSetAccessible=true'' @ [39]
         @ str '' --conf spark.executor.extraJavaOptions='' @ [39]
         @ str ''-Djava.io.tmpdir='' @ tmp_dir
         @ str '' -Dio.netty.tryReflectionSetAccessible=true'' @ [39]
         @ str '' --conf spark.sql.warehouse.dir='' @ [39] @ metastore_dir @ [39]
         @ str '' pyspark-shell''))"
  by (simp_all add: task_env_def str_def spark_args_def java_options_def quote_def)

text \<open>
  C10.  The environment handed to a task's child is the parent's environment with eight
  keys written by the script: \<open>SPARK_DIST_CLASSPATH\<close> gets the class path found at
  start-up, \<open>SPARK_TESTING\<close>, \<open>SPARK_PREPEND_CLASSES\<close> and \<open>PYARROW_IGNORE_TIMEZONE\<close>
  get \<open>1\<close>, \<open>PYSPARK_PYTHON\<close> and \<open>PYSPARK_DRIVER_PYTHON\<close> get what \<open>which\<close> finds for
  the executable, \<open>TMPDIR\<close> gets the task's working directory and
  \<open>PYSPARK_SUBMIT_ARGS\<close> the options that name the working directory and the nested
  directory, ending in \<open>pyspark-shell\<close>.  Every other key is present or absent as in the
  parent and has the parent's value.
\<close>

theorem child_env_overrides:
  assumes "run_individual_python_test h target test_name pyspark_python w = Some (st, w')"
  shows "\<exists>tmp_dir metastore_dir k env.
           acquire h target (uuid_calls w) = Some (tmp_dir, metastore_dir, k)
         \<and> popen_calls w' = popen_calls w @ [(pyspark h, test_name, env)]
         \<and> env (str ''SPARK_DIST_CLASSPATH'') = Some (Some (SPARK_DIST_CLASSPATH h))
         \<and> env (str ''SPARK_TESTING'') = Some (Some (str ''1''))
         \<and> env (str ''SPARK_PREPEND_CLASSES'') = Some (Some (str ''1''))
         \<and> env (str ''PYSPARK_PYTHON'') = Some (which h pyspark_python)
         \<and> env (str ''PYSPARK_DRIVER_PYTHON'') = Some (which h pyspark_python)
         \<and> env (str ''PYARROW_IGNORE_TIMEZONE'') = Some (Some (str ''1''))
         \<and> env (str ''TMPDIR'') = Some (Some tmp_dir)
         \<and> env (str ''PYSPARK_SUBMIT_ARGS'')
             = Some (Some (str ''--conf spark.driver.extraJavaOptions='' @ [39]
                 @ str ''-Djava.io.tmpdir='' @ tmp_dir
                 @ str '' -Dio.netty.tryReflectionSetAccessible=true'' @ [39]
                 @ str '' --conf spark.executor.extraJavaOptions='' @ [39]
                 @ str ''-Djava.io.tmpdir='' @ tmp_dir
                 @ str '' -Dio.netty.tryReflectionSetAccessible=true'' @ [39]
                 @ str '' --conf spark.sql.warehouse.dir='' @ [39] @ metastore_dir @ [39]
                 @ str '' pyspark-shell''))
         \<and> (\<forall>key. key \<notin> overridden \<longrightarrow> env key = map_option Some (os_environ h key))"
proof -
  from assms obtain tmp_dir metastore_dir k where
    a: "acquire h target (uuid_calls w) = Some (tmp_dir, metastore_dir, k)"
    by (rule run_cases)
  let ?env = "task_env h pyspark_python tmp_dir metastore_dir"
  have "popen_calls w' = popen_calls w @ [(pyspark h, test_name, ?env)]"
    by (rule popen_calls_run [OF assms a])
  with a show ?thesis
    using task_env_values [of h pyspark_python tmp_dir metastore_dir]
      task_env_other [of _ h pyspark_python tmp_dir metastore_dir]
    by blast
qed


theorem child_env_overrides_witness:
  "\<exists>st w' env.
     run_individual_python_test
       ((example_host (Finished 0 (bytes_of ''ok'')))
          \<lparr>os_environ := [str ''HOME'' \<mapsto> str ''/root'', str ''TMPDIR'' \<mapsto> str ''/tmp'']\<rparr>)
       (str ''/t'') (str ''pyspark.a'') (str ''python3'') example_world = Some (st, w')
     \<and> popen_calls w' = [(str ''/spark/bin/pyspark'', str ''pyspark.a'', env)]
     \<and> env (str ''SPARK_TESTING'') = Some (Some (str ''1''))
     \<and> env (str ''PYSPARK_PYTHON'') = Some (Some (str ''/usr/bin/python3''))
     \<and> env (str ''TMPDIR'') = Some (Some (str ''/t/uuid0''))
     \<and> env (str ''HOME'') = Some (Some (str ''/root''))
     \<and> env (str ''LANG'') = None"
proof -
  let ?h = "(example_host (Finished 0 (bytes_of ''ok'')))
          \<lparr>os_environ := [str ''HOME'' \<mapsto> str ''/root'', str ''TMPDIR'' \<mapsto> str ''/tmp'']\<rparr>"
  have a: "acquire ?h (str ''/t'') (uuid_calls example_world)
             = Some (str ''/t/uuid0'', str ''/t/uuid0/uuid1'', 2)"
    by (simp add: acquire_def example_host_def example_world_def fresh_tmp_dir.simps
        fresh_metastore_dir.simps path_join_def str_def slash_def)
  have p: "popen_wait ?h (pyspark ?h) (str ''pyspark.a'')
             (task_env ?h (str ''python3'') (str ''/t/uuid0'') (str ''/t/uuid0/uuid1''))
             = Finished 0 (bytes_of ''ok'')"
    by (simp add: example_host_def)
  obtain st w' where r: "run_individual_python_test ?h (str ''/t'') (str ''pyspark.a'')
      (str ''python3'') example_world = Some (st, w')"
    using run_passed [OF a p] by (metis prod.collapse)
  have o: "str ''HOME'' \<notin> overridden" "str ''LANG'' \<notin> overridden"
    by (simp_all add: overridden_def str_def)
  from child_env_overrides [OF r] a obtain env where
    e: "popen_calls w' = popen_calls example_world @ [(pyspark ?h, str ''pyspark.a'', env)]"
      "env (str ''SPARK_TESTING'') = Some (Some (str ''1''))"
      "env (str ''PYSPARK_PYTHON'') = Some (which ?h (str ''python3''))"
      "env (str ''TMPDIR'') = Some (Some (str ''/t/uuid0''))"
      "\<forall>key. key \<notin> overridden \<longrightarrow> env key = map_option Some (os_environ ?h key)"
    by auto
  from e(5) o have "env (str ''HOME'') = map_option Some (os_environ ?h (str ''HOME''))"
    "env (str ''LANG'') = map_option Some (os_environ ?h (str ''LANG''))"
    by blast+
  then have "env (str ''HOME'') = Some (Some (str ''/root''))" "env (str ''LANG'') = None"
    by (simp_all add: str_def)
  moreover have "pyspark ?h = str ''/spark/bin/pyspark''"
    by (simp add: pyspark_def example_host_def path_join_def str_def slash_def)
  moreover have "which ?h (str ''python3'') = Some (str ''/usr/bin/python3'')"
    by (simp add: example_host_def str_def)
  ultimately show ?thesis
    using r e(1-4) by (simp add: example_world_def)
qed

lemma skip_example_lines:
  "\<not> re_search skip_pattern (str ''test_a (pyspark.b) ... ok'' @ [10])"
  "re_search skip_pattern (str ''test_b (pyspark.b) abc SKIP'' @ [10])"
  "re_search skip_pattern (str ''test_c (pyspark.b) ... skipped'' @ [10])"
  "\<not> re_search spec_skip_pattern (str ''test_a (pyspark.b) ... ok'' @ [10])"
  "\<not> re_search spec_skip_pattern (str ''test_b (pyspark.b) abc SKIP'' @ [10])"
  "re_search spec_skip_pattern (str ''test_c (pyspark.b) ... skipped'' @ [10])"
  by code_simp+

text \<open>
  C5.  A child ends with code 0.  Of its three output lines only the third carries the
  marker \<open>...\<close> followed by \<open>skip\<close>, so one line matches the skip pattern as the
  specification has it; the registry entry nevertheless holds two lines, the second
  line having any three characters where the dots should be.  When that second line is
  the whole output, no line matches the pattern of the specification and an entry is
  written all the same.
\<close>

theorem unmarked_line_registered:
  "map_option (\<lambda>(st, w'). (st, SKIPPED_TESTS w'))
     (run_individual_python_test
        (example_host (Finished 0 (bytes_of
           (''test_a (pyspark.b) ... ok'' @ [LF] @ ''test_b (pyspark.b) abc SKIP'' @ [LF]
              @ ''test_c (pyspark.b) ... skipped'' @ [LF]))))
        (str ''/t'') (str ''pyspark.b'') (str ''python3'') example_world)
   = Some (Returned,
       Some [(str ''python3'', str ''pyspark.b'') \<mapsto>
          [str ''test_b (pyspark.b) abc SKIP'' @ [10],
           str ''test_c (pyspark.b) ... skipped'' @ [10]]])
   \<and> filter (re_search spec_skip_pattern)
       (map (decode (example_host Raised)) (file_lines (bytes_of
           (''test_a (pyspark.b) ... ok'' @ [LF] @ ''test_b (pyspark.b) abc SKIP'' @ [LF]
              @ ''test_c (pyspark.b) ... skipped'' @ [LF]))))
     = [str ''test_c (pyspark.b) ... skipped'' @ [10]]
   \<and> map_option (\<lambda>(st, w'). (st, SKIPPED_TESTS w'))
     (run_individual_python_test
        (example_host (Finished 0 (bytes_of (''test_b (pyspark.b) abc SKIP'' @ [LF]))))
        (str ''/t'') (str ''pyspark.b'') (str ''python3'') example_world)
   = Some (Returned,
       Some [(str ''python3'', str ''pyspark.b'') \<mapsto> [str ''test_b (pyspark.b) abc SKIP'' @ [10]]])
   \<and> filter (re_search spec_skip_pattern)
       (map (decode (example_host Raised))
          (file_lines (bytes_of (''test_b (pyspark.b) abc SKIP'' @ [LF])))) = []"
proof -
  let ?out = "bytes_of
           (''test_a (pyspark.b) ... ok'' @ [LF] @ ''test_b (pyspark.b) abc SKIP'' @ [LF]
              @ ''test_c (pyspark.b) ... skipped'' @ [LF])"
  let ?out2 = "bytes_of (''test_b (pyspark.b) abc SKIP'' @ [LF])"
  let ?la = "str ''test_a (pyspark.b) ... ok'' @ [10]"
  let ?lb = "str ''test_b (pyspark.b) abc SKIP'' @ [10]"
  let ?lc = "str ''test_c (pyspark.b) ... skipped'' @ [10]"
  have d: "map (decode (example_host r)) (file_lines ?out) = [?la, ?lb, ?lc]" for r
    by (simp add: example_host_def bytes_of_def LF_def str_def)
  have d2: "map (decode (example_host r)) (file_lines ?out2) = [?lb]" for r
    by (simp add: example_host_def bytes_of_def LF_def str_def)
  have f: "filter (re_search skip_pattern) (map (decode (example_host r)) (file_lines ?out))
             = [?lb, ?lc]" for r
    by (simp only: d filter.simps skip_example_lines if_True if_False)
  have f2: "filter (re_search skip_pattern) (map (decode (example_host r)) (file_lines ?out2))
             = [?lb]" for r
    by (simp only: d2 filter.simps skip_example_lines if_True if_False)
  have g: "filter (re_search spec_skip_pattern)
             (map (decode (example_host Raised)) (file_lines ?out)) = [?lc]"
    by (simp only: d filter.simps skip_example_lines if_True if_False)
  have g2: "filter (re_search spec_skip_pattern)
             (map (decode (example_host Raised)) (file_lines ?out2)) = []"
    by (simp only: d2 filter.simps skip_example_lines if_True if_False)
  have run: "map_option (\<lambda>(st, w'). (st, SKIPPED_TESTS w'))
     (run_individual_python_test (example_host (Finished 0 out))
        (str ''/t'') (str ''pyspark.b'') (str ''python3'') example_world)
     = Some (Returned, Some [(str ''python3'', str ''pyspark.b'') \<mapsto> ls])"
    if "filter (re_search skip_pattern) (map (decode (example_host (Finished 0 out))) (file_lines out))
          = ls" and "ls \<noteq> []" for out ls
  proof -
    let ?h = "example_host (Finished 0 out)"
    have a: "acquire ?h (str ''/t'') (uuid_calls example_world)
               = Some (str ''/t/uuid0'', str ''/t/uuid0/uuid1'', 2)"
      by (simp add: acquire_example example_world_def)
    have p: "popen_wait ?h (pyspark ?h) (str ''pyspark.b'')
               (task_env ?h (str ''python3'') (str ''/t/uuid0'') (str ''/t/uuid0/uuid1''))
               = Finished 0 out"
      by (simp add: example_host_def)
    let ?w1 = "spawning ?h (str ''pyspark.b'') (str ''python3'') (str ''/t/uuid0'')
               (str ''/t/uuid0/uuid1'') 2 example_world"
    have "record_skipped ?h (str ''pyspark.b'') (str ''python3'') out ?w1
          = (Returned,
             emit (Info_finished_skipped (str ''python3'') (str ''pyspark.b'') (length ls))
               (?w1\<lparr>SKIPPED_TESTS := Some [(str ''python3'', str ''pyspark.b'') \<mapsto> ls]\<rparr>))"
      unfolding record_skipped_def Let_def that(1)
      using that(2) by (simp add: SKIPPED_TESTS_spawning example_world_def example_host_def)
    then show ?thesis
      by (simp add: run_passed [OF a p] emit_def)
  qed
  show ?thesis
    using run [OF f] run [OF f2] g g2 by simp
qed

lemma process_queue_first_raises:
  assumes "interrupt h \<noteq> Some completed"
    and "get_nowait task_queue = Some ((priority, python_exec, test_goal), rest)"
    and "run_individual_python_test h target test_goal python_exec w = Some (Raises, w')"
  shows "process_queue h target task_queue completed w = Some (Raises, w')"
  using assms by (subst process_queue.simps) simp

text \<open>
  Whatever else is raised while the failure log is written or the output is echoed, the
  summary line that names the test and the executable is printed last and the call ends
  the process with status \<open>-1\<close>.
\<close>

lemma summary_printed_ends_process:
  assumes "acquire h target (uuid_calls w) = Some (tmp_dir, metastore_dir, k)"
    and "popen_wait h (pyspark h) test_name (task_env h pyspark_python tmp_dir metastore_dir)
           = Finished retcode per_test_output"
    and "retcode \<noteq> 0"
    and "report_fault h = Some fault"
    and "\<not> console_gone (Some fault)"
  shows "\<exists>w'. run_individual_python_test h target test_name pyspark_python w
                 = Some (Exited (- 1), w')
           \<and> last (console w') =
               Print_red (newline # str ''Had test failures in '' @ test_name @ str '' with ''
                 @ pyspark_python @ str ''; see logs.'')
           \<and> Exception_printing \<in> set (console w')"
  using assms(4,5)
  by (cases fault)
    (simp_all add: run_failed [OF assms(1,2,3)] report_failure_def Let_def print_red_def emit_def
      had_test_failures_def)

text \<open>
  C7.  The console has gone away and a child ends with a nonzero code after printing one
  line.  The output is appended to the log file, the \<open>print\<close> of line 132 raises inside
  the \<open>try\<close>, and the \<open>print\<close> of line 137 raises inside the \<open>finally\<close>, so that line 140
  is not reached: no summary line is printed, the call ends with an exception instead
  of ending the process, and the worker's loop ends with that exception while a task is
  still in the queue.
\<close>

theorem console_gone_no_exit:
  "map_option (\<lambda>(st, w'). (st, console w', LOG_FILE w'))
     (run_individual_python_test
        ((example_host (Finished 1 (bytes_of ''boom'')))\<lparr>report_fault := Some (ConsoleFails 0)\<rparr>)
        (str ''/t'') (str ''pyspark.a'') (str ''python3'') example_world)
   = Some (Raises, [Info_starting (str ''python3'') (str ''pyspark.a'')], Some (bytes_of ''boom''))
   \<and> map_option fst
       (process_queue
          ((example_host (Finished 1 (bytes_of ''boom'')))\<lparr>report_fault := Some (ConsoleFails 0)\<rparr>)
          (str ''/t'') [(0, str ''python3'', str ''pyspark.a''), (0, str ''python3'', str ''pyspark.c'')]
          0 example_world)
     = Some Raises"
proof -
  let ?h = "(example_host (Finished 1 (bytes_of ''boom'')))\<lparr>report_fault := Some (ConsoleFails 0)\<rparr>"
  have a: "acquire ?h (str ''/t'') (uuid_calls example_world)
             = Some (str ''/t/uuid0'', str ''/t/uuid0/uuid1'', 2)"
    by (simp add: acquire_def example_host_def example_world_def fresh_tmp_dir.simps
        fresh_metastore_dir.simps path_join_def str_def slash_def)
  have p: "popen_wait ?h (pyspark ?h) (str ''pyspark.a'')
             (task_env ?h (str ''python3'') (str ''/t/uuid0'') (str ''/t/uuid0/uuid1''))
             = Finished 1 (bytes_of ''boom'')"
    by (simp add: example_host_def)
  let ?w1 = "spawning ?h (str ''pyspark.a'') (str ''python3'') (str ''/t/uuid0'')
               (str ''/t/uuid0/uuid1'') 2 example_world"
  let ?w' = "append_log (bytes_of ''boom'') ?w1"
  have f: "report_failure ?h (str ''pyspark.a'') (str ''python3'') (bytes_of ''boom'') ?w1
             = (Raises, ?w')"
    by (simp add: report_failure_def Let_def bytes_of_def LF_def)
  have r: "run_individual_python_test ?h (str ''/t'') (str ''pyspark.a'') (str ''python3'')
             example_world = Some (Raises, ?w')"
    using run_failed [OF a p] f by simp
  have c: "console ?w' = [Info_starting (str ''python3'') (str ''pyspark.a'')]"
    by (simp add: console_append_log console_spawning example_world_def)
  have l: "LOG_FILE ?w' = Some (bytes_of ''boom'')"
    by (simp add: append_log_def LOG_FILE_spawning example_world_def)
  have i: "interrupt ?h \<noteq> Some 0"
    by (simp add: example_host_def)
  have g: "get_nowait [(0::int, str ''python3'', str ''pyspark.a''), (0, str ''python3'', str ''pyspark.c'')]
             = Some ((0, str ''python3'', str ''pyspark.a''), [(0, str ''python3'', str ''pyspark.c'')])"
    by code_simp
  have q: "process_queue ?h (str ''/t'')
             [(0, str ''python3'', str ''pyspark.a''), (0, str ''python3'', str ''pyspark.c'')]
             0 example_world = Some (Raises, ?w')"
    by (rule process_queue_first_raises [OF i g r])
  show ?thesis
    unfolding r q using c l by simp
qed





text \<open>Every line with the marker as the specification words it is collected.\<close>

lemma lang_Seq_I: "u \<in> lang r \<Longrightarrow> v \<in> lang s \<Longrightarrow> u @ v \<in> lang (Seq r s)"
  by auto

lemma lang_Seq_mono: "lang s \<subseteq> lang s' \<Longrightarrow> lang (Seq r s) \<subseteq> lang (Seq r s')"
  by auto

lemma lang_literal_dots:
  "lang (Seq (lits (str '') ... '')) K)
     \<subseteq> lang (Seq (lits (str '') '')) (Seq Dot (Seq Dot (Seq Dot (Seq (lits (str '' '')) K)))))"
proof
  fix w assume "w \<in> lang (Seq (lits (str '') ... '')) K)"
  then obtain k where w: "w = str '') ... '' @ k" and k: "k \<in> lang K"
    by (auto simp add: lang_lits)
  have dot: "[46] \<in> lang Dot" by (simp add: newline_def)
  have "str '') '' @ [46] @ [46] @ [46] @ str '' '' @ k
          \<in> lang (Seq (lits (str '') '')) (Seq Dot (Seq Dot (Seq Dot (Seq (lits (str '' '')) K)))))"
    by (intro lang_Seq_I dot k) (simp_all only: lang_lits singletonI)
  moreover have "str '') ... '' = str '') '' @ [46] @ [46] @ [46] @ str '' ''"
    by (simp add: str_def)
  ultimately show "w \<in> lang (Seq (lits (str '') '')) (Seq Dot (Seq Dot (Seq Dot (Seq (lits (str '' '')) K)))))"
    by (simp only: w append_assoc)
qed

lemma lang_spec_skip_pattern: "lang spec_skip_pattern \<subseteq> lang skip_pattern"
  unfolding spec_skip_pattern_def skip_pattern_def
  by (intro lang_Seq_mono lang_literal_dots)

lemma spec_skip_lines_collected:
  "re_search spec_skip_pattern line \<Longrightarrow> re_search skip_pattern line"
  using lang_spec_skip_pattern by (auto simp add: re_search_iff)

lemma lang_SeqE:
  assumes "w \<in> lang (Seq r s)"
  obtains u v where "w = u @ v" "u \<in> lang r" "v \<in> lang s"
  using assms by auto

lemma lang_DotE:
  assumes "w \<in> lang Dot"
  obtains c where "w = [c]" "c \<noteq> newline"
  using assms by auto

lemma lang_skip_pattern:
  "w \<in> lang skip_pattern \<longleftrightarrow>
     (\<exists>a b c1 c2 c3 kw.
        w = str ''test_'' @ a @ str '' (pyspark.'' @ b @ str '') '' @ [c1, c2, c3] @ str '' '' @ kw
        \<and> newline \<notin> set a \<and> newline \<notin> set b
        \<and> c1 \<noteq> newline \<and> c2 \<noteq> newline \<and> c3 \<noteq> newline
        \<and> (kw = str ''skip'' \<or> kw = str ''SKIP''))"
proof
  assume "w \<in> lang skip_pattern"
  then show "\<exists>a b c1 c2 c3 kw.
        w = str ''test_'' @ a @ str '' (pyspark.'' @ b @ str '') '' @ [c1, c2, c3] @ str '' '' @ kw
        \<and> newline \<notin> set a \<and> newline \<notin> set b
        \<and> c1 \<noteq> newline \<and> c2 \<noteq> newline \<and> c3 \<noteq> newline
        \<and> (kw = str ''skip'' \<or> kw = str ''SKIP'')"
    unfolding skip_pattern_def
    apply (elim lang_SeqE lang_DotE)
    apply (simp only: lang_lits singleton_iff lang.simps(7,8) star_words_dot mem_Collect_eq Un_iff)
    apply hypsubst
    apply (simp only: append_Cons append_Nil)
    apply blast
    done
next
  assume "\<exists>a b c1 c2 c3 kw.
        w = str ''test_'' @ a @ str '' (pyspark.'' @ b @ str '') '' @ [c1, c2, c3] @ str '' '' @ kw
        \<and> newline \<notin> set a \<and> newline \<notin> set b
        \<and> c1 \<noteq> newline \<and> c2 \<noteq> newline \<and> c3 \<noteq> newline
        \<and> (kw = str ''skip'' \<or> kw = str ''SKIP'')"
  then obtain a b c1 c2 c3 kw where
    w: "w = str ''test_'' @ a @ str '' (pyspark.'' @ b @ str '') '' @ [c1, c2, c3] @ str '' '' @ kw"
    and ab: "newline \<notin> set a" "newline \<notin> set b"
    and c: "c1 \<noteq> newline" "c2 \<noteq> newline" "c3 \<noteq> newline"
    and k: "kw = str ''skip'' \<or> kw = str ''SKIP''"
    by blast
  have a: "a \<in> lang (Star Dot)" "b \<in> lang (Star Dot)"
    using ab by (simp_all only: lang.simps(8) star_words_dot mem_Collect_eq not_False_eq_True)
  have d: "[c1] \<in> lang Dot" "[c2] \<in> lang Dot" "[c3] \<in> lang Dot"
    using c by simp_all
  have kw: "kw \<in> lang (Alt (lits (str ''skip'')) (lits (str ''SKIP'')))"
    using k by (auto simp add: lang_lits)
  have l: "s \<in> lang (lits s)" for s by (simp add: lang_lits)
  have "str ''test_'' @ a @ str '' (pyspark.'' @ b @ str '') '' @ [c1] @ [c2] @ [c3]
          @ str '' '' @ kw \<in> lang skip_pattern"
    unfolding skip_pattern_def by (intro lang_Seq_I l a d kw)
  then show "w \<in> lang skip_pattern" by (simp add: w)
qed

text \<open>The lines that are collected.\<close>

lemma collected_lines:
  "re_search skip_pattern line \<longleftrightarrow>
     (\<exists>before a b c1 c2 c3 kw after.
        line = before @ str ''test_'' @ a @ str '' (pyspark.'' @ b @ str '') '' @ [c1, c2, c3]
                 @ str '' '' @ kw @ after
        \<and> newline \<notin> set a \<and> newline \<notin> set b
        \<and> c1 \<noteq> newline \<and> c2 \<noteq> newline \<and> c3 \<noteq> newline
        \<and> (kw = str ''skip'' \<or> kw = str ''SKIP''))"
proof
  assume "re_search skip_pattern line"
  then obtain p u v where "line = p @ u @ v" "u \<in> lang skip_pattern"
    by (auto simp add: re_search_iff)
  then show "\<exists>before a b c1 c2 c3 kw after.
        line = before @ str ''test_'' @ a @ str '' (pyspark.'' @ b @ str '') '' @ [c1, c2, c3]
                 @ str '' '' @ kw @ after
        \<and> newline \<notin> set a \<and> newline \<notin> set b
        \<and> c1 \<noteq> newline \<and> c2 \<noteq> newline \<and> c3 \<noteq> newline
        \<and> (kw = str ''skip'' \<or> kw = str ''SKIP'')"
    unfolding lang_skip_pattern by (elim exE conjE) (simp, blast)
next
  assume "\<exists>before a b c1 c2 c3 kw after.
        line = before @ str ''test_'' @ a @ str '' (pyspark.'' @ b @ str '') '' @ [c1, c2, c3]
                 @ str '' '' @ kw @ after
        \<and> newline \<notin> set a \<and> newline \<notin> set b
        \<and> c1 \<noteq> newline \<and> c2 \<noteq> newline \<and> c3 \<noteq> newline
        \<and> (kw = str ''skip'' \<or> kw = str ''SKIP'')"
  then obtain before a b c1 c2 c3 kw after where
    l: "line = before @ str ''test_'' @ a @ str '' (pyspark.'' @ b @ str '') '' @ [c1, c2, c3]
                 @ str '' '' @ kw @ after"
    and h: "newline \<notin> set a" "newline \<notin> set b" "c1 \<noteq> newline" "c2 \<noteq> newline"
      "c3 \<noteq> newline" "kw = str ''skip'' \<or> kw = str ''SKIP''"
    by blast
  let ?u = "str ''test_'' @ a @ str '' (pyspark.'' @ b @ str '') '' @ [c1, c2, c3] @ str '' '' @ kw"
  have "?u \<in> lang skip_pattern"
    unfolding lang_skip_pattern using h by blast
  moreover have "line = before @ ?u @ after" by (simp add: l)
  ultimately show "re_search skip_pattern line"
    unfolding re_search_iff by blast
qed

text \<open>
  C2.  A task ends with code 0 after printing the line \<open>test_a (pyspark.b) xyz skip\<close>.
  The line has no three-dot sequence and does not match the pattern with literal dots,
  yet it is stored as a skipped test: the three dots of line 149 are not escaped and
  match any three characters.
\<close>

theorem unescaped_dots_collect_line:
  "map_option (\<lambda>(st, w'). (st, SKIPPED_TESTS w'))
     (run_individual_python_test
        (example_host (Finished 0 (bytes_of ''test_a (pyspark.b) xyz skip'')))
        (str ''/t'') (str ''pyspark.b'') (str ''python3'') example_world)
   = Some (Returned,
       Some [(str ''python3'', str ''pyspark.b'') \<mapsto> [str ''test_a (pyspark.b) xyz skip'']])
   \<and> \<not> re_search spec_skip_pattern (str ''test_a (pyspark.b) xyz skip'')"
proof -
  let ?out = "bytes_of ''test_a (pyspark.b) xyz skip''"
  let ?h = "example_host (Finished 0 ?out)"
  have a: "acquire ?h (str ''/t'') (uuid_calls example_world)
             = Some (str ''/t/uuid0'', str ''/t/uuid0/uuid1'', 2)"
    by (simp add: acquire_example example_world_def)
  have p: "popen_wait ?h (pyspark ?h) (str ''pyspark.b'')
             (task_env ?h (str ''python3'') (str ''/t/uuid0'') (str ''/t/uuid0/uuid1''))
             = Finished 0 ?out"
    by (simp add: example_host_def)
  have d: "map (decode ?h) (file_lines ?out) = [str ''test_a (pyspark.b) xyz skip'']"
    by (simp add: example_host_def bytes_of_def LF_def str_def)
  have m: "re_search skip_pattern (str ''test_a (pyspark.b) xyz skip'')"
    by code_simp
  have n: "\<not> re_search spec_skip_pattern (str ''test_a (pyspark.b) xyz skip'')"
    by code_simp
  have f: "filter (re_search skip_pattern) (map (decode ?h) (file_lines ?out))
             = [str ''test_a (pyspark.b) xyz skip'']"
    by (simp only: d filter.simps m if_True)
  have "record_skipped ?h (str ''pyspark.b'') (str ''python3'') ?out
          (spawning ?h (str ''pyspark.b'') (str ''python3'') (str ''/t/uuid0'')
             (str ''/t/uuid0/uuid1'') 2 example_world)
        = (Returned,
           emit (Info_finished_skipped (str ''python3'') (str ''pyspark.b'') 1)
             ((spawning ?h (str ''pyspark.b'') (str ''python3'') (str ''/t/uuid0'')
                 (str ''/t/uuid0/uuid1'') 2 example_world)
              \<lparr>SKIPPED_TESTS := Some [(str ''python3'', str ''pyspark.b'')
                   \<mapsto> [str ''test_a (pyspark.b) xyz skip'']]\<rparr>))"
    unfolding record_skipped_def Let_def f
    by (simp add: SKIPPED_TESTS_spawning example_world_def example_host_def)
  then show ?thesis
    using n by (simp add: run_passed [OF a p] emit_def)
qed

text \<open>
  C3.  The first name drawn for the nested directory exists already.  The retry of line
  89 joins the next name onto that existing directory, so the directory made is two
  levels below the working directory and its parent is not the working directory.  The
  loop of lines 83 and 84, hit by the same collision, stays directly inside its base.
\<close>

theorem nested_collision_goes_deeper:
  "acquire ((example_host Raised)\<lparr>isdir := (\<lambda>p. p = str ''/t/uuid0/uuid1'')\<rparr>) (str ''/t'') 0
     = Some (str ''/t/uuid0'', str ''/t/uuid0/uuid1/uuid2'', 3)
   \<and> dirname (str ''/t/uuid0/uuid1/uuid2'') = str ''/t/uuid0/uuid1''
   \<and> dirname (str ''/t/uuid0/uuid1/uuid2'') \<noteq> str ''/t/uuid0''
   \<and> map_option (made_dirs \<circ> snd)
        (run_individual_python_test
           ((example_host Raised)\<lparr>isdir := (\<lambda>p. p = str ''/t/uuid0/uuid1'')\<rparr>)
           (str ''/t'') (str ''pyspark.a'') (str ''python3'') example_world)
       = Some [str ''/t/uuid0'', str ''/t/uuid0/uuid1/uuid2'']
   \<and> acquire ((example_host Raised)\<lparr>isdir := (\<lambda>p. p = str ''/t/uuid0'')\<rparr>) (str ''/t'') 0
       = Some (str ''/t/uuid1'', str ''/t/uuid1/uuid2'', 3)
   \<and> dirname (str ''/t/uuid1'') = str ''/t''"
proof -
  let ?h = "(example_host Raised)\<lparr>isdir := (\<lambda>p. p = str ''/t/uuid0/uuid1'')\<rparr>"
  have a: "acquire ?h (str ''/t'') 0 = Some (str ''/t/uuid0'', str ''/t/uuid0/uuid1/uuid2'', 3)"
    by (simp add: acquire_def example_host_def fresh_tmp_dir.simps fresh_metastore_dir.simps
        path_join_def str_def slash_def)
  have a': "acquire ?h (str ''/t'') (uuid_calls example_world)
             = Some (str ''/t/uuid0'', str ''/t/uuid0/uuid1/uuid2'', 3)"
    using a by (simp add: example_world_def)
  have p: "popen_wait ?h (pyspark ?h) (str ''pyspark.a'')
             (task_env ?h (str ''python3'') (str ''/t/uuid0'') (str ''/t/uuid0/uuid1/uuid2''))
             = Raised"
    by (simp add: example_host_def)
  have d: "dirname (str ''/t/uuid0/uuid1/uuid2'') = str ''/t/uuid0/uuid1''"
    by (simp add: dirname_def str_def slash_def)
  have n: "dirname (str ''/t/uuid0/uuid1/uuid2'') \<noteq> str ''/t/uuid0''"
    by (simp add: d) (simp add: str_def)
  have r: "map_option (made_dirs \<circ> snd)
        (run_individual_python_test ?h (str ''/t'') (str ''pyspark.a'') (str ''python3'')
           example_world)
       = Some [str ''/t/uuid0'', str ''/t/uuid0/uuid1/uuid2'']"
    unfolding run_raised [OF a' p]
    by (simp add: spawning_def emit_def mkdir_def example_world_def)
  have b: "acquire ((example_host Raised)\<lparr>isdir := (\<lambda>p. p = str ''/t/uuid0'')\<rparr>) (str ''/t'') 0
       = Some (str ''/t/uuid1'', str ''/t/uuid1/uuid2'', 3)"
    by (simp add: acquire_def example_host_def fresh_tmp_dir.simps fresh_metastore_dir.simps
        path_join_def str_def slash_def)
  have e: "dirname (str ''/t/uuid1'') = str ''/t''"
    by (simp add: dirname_def str_def slash_def)
  show ?thesis
    using a d n r b e by blast
qed

section \<open>\<open>heappush\<close> and \<open>heappop\<close> keep a heap and return its least entry\<close>

lemma parent_less: "0 < i \<Longrightarrow> parent i < i"
  by (auto simp add: parent_def)

lemma heap_butD:
  "heap_but xs pos \<Longrightarrow> 0 < i \<Longrightarrow> i < length xs \<Longrightarrow> i \<noteq> pos \<Longrightarrow> parent i \<noteq> pos
     \<Longrightarrow> xs ! parent i \<le> xs ! i"
  unfolding heap_but_def by blast

lemma children_geD:
  "children_ge xs pos x \<Longrightarrow> 0 < c \<Longrightarrow> c < length xs \<Longrightarrow> parent c = pos \<Longrightarrow> x \<le> xs ! c"
  unfolding children_ge_def by blast

lemma mset_move:
  "i < length xs \<Longrightarrow> j < length xs \<Longrightarrow> i \<noteq> j \<Longrightarrow>
     mset (xs[i := xs ! j, j := x]) = mset (xs[i := x])"
  by (simp add: mset_update)

lemma siftdown_loop_step:
  "startpos < pos \<Longrightarrow> newitem < heap ! parent pos \<Longrightarrow>
     siftdown_loop heap startpos pos newitem
       = siftdown_loop (heap[pos := heap ! parent pos]) startpos (parent pos) newitem"
  by (subst siftdown_loop.simps) (simp add: Let_def parent_def)

lemma siftdown_loop_stop:
  "\<not> (startpos < pos \<and> newitem < heap ! parent pos) \<Longrightarrow>
     siftdown_loop heap startpos pos newitem = heap[pos := newitem]"
  by (subst siftdown_loop.simps) (auto simp add: Let_def parent_def)

lemma is_heap_place:
  assumes hb: "heap_but xs pos" and ch: "children_ge xs pos x" and len: "pos < length xs"
    and up: "pos > 0 \<longrightarrow> xs ! parent pos \<le> x"
  shows "is_heap (xs[pos := x])"
  unfolding is_heap_def
proof (intro allI impI)
  fix i assume "0 < i \<and> i < length (xs[pos := x])"
  then have i: "0 < i" "i < length xs" by simp_all
  have pi: "parent i < i" using i by (simp add: parent_less)
  show "xs[pos := x] ! parent i \<le> xs[pos := x] ! i"
  proof (cases "i = pos")
    case True
    with up i pi len show ?thesis by simp
  next
    case False
    show ?thesis
    proof (cases "parent i = pos")
      case True
      have "x \<le> xs ! i" by (rule children_geD [OF ch i True])
      with True False len show ?thesis by simp
    next
      case np: False
      have "xs ! parent i \<le> xs ! i" by (rule heap_butD [OF hb i False np])
      with np False show ?thesis by simp
    qed
  qed
qed

lemma siftdown_loop_heap:
  assumes "heap_but heap pos" "children_ge heap pos newitem" "pos < length heap"
    and "pos > 0 \<longrightarrow> children_ge heap pos (heap ! parent pos)"
  shows "is_heap (siftdown_loop heap 0 pos newitem)"
  using assms
proof (induction pos arbitrary: heap rule: less_induct)
  case (less pos)
  note hb = less.prems(1) and ch = less.prems(2) and len = less.prems(3) and gp = less.prems(4)
  let ?pp = "parent pos"
  show ?case
  proof (cases "0 < pos \<and> newitem < heap ! ?pp")
    case False
    then have "siftdown_loop heap 0 pos newitem = heap[pos := newitem]"
      by (rule siftdown_loop_stop)
    moreover from False have "pos > 0 \<longrightarrow> heap ! ?pp \<le> newitem" by auto
    ultimately show ?thesis using hb ch len by (simp add: is_heap_place)
  next
    case True
    then have pos: "pos > 0" and lt: "newitem < heap ! ?pp" by simp_all
    have pp: "?pp < pos" using pos by (rule parent_less)
    let ?h = "heap[pos := heap ! ?pp]"
    have eq: "siftdown_loop heap 0 pos newitem = siftdown_loop ?h 0 ?pp newitem"
      using pos lt by (rule siftdown_loop_step)
    have gp': "children_ge heap pos (heap ! ?pp)" using gp pos by simp
    have sib: "heap ! ?pp \<le> ?h ! c" if c: "0 < c" "c < length heap" "parent c = ?pp" for c
    proof (cases "c = pos")
      case True
      with len show ?thesis by simp
    next
      case False
      from c pp have "parent c \<noteq> pos" by simp
      from heap_butD [OF hb c(1,2) False this] c False show ?thesis by simp
    qed
    have a: "heap_but ?h ?pp"
      unfolding heap_but_def
    proof (intro allI impI)
      fix i assume "0 < i \<and> i < length ?h \<and> i \<noteq> ?pp \<and> parent i \<noteq> ?pp"
      then have i: "0 < i" "i < length heap" "i \<noteq> ?pp" "parent i \<noteq> ?pp" by simp_all
      from i(4) have ip: "i \<noteq> pos" by auto
      show "?h ! parent i \<le> ?h ! i"
      proof (cases "parent i = pos")
        case True
        from children_geD [OF gp' i(1,2) True] True ip len show ?thesis by simp
      next
        case False
        from heap_butD [OF hb i(1,2) ip False] False ip show ?thesis by simp
      qed
    qed
    have b: "children_ge ?h ?pp newitem"
      unfolding children_ge_def
    proof (intro allI impI)
      fix c assume "0 < c \<and> c < length ?h \<and> parent c = ?pp"
      then have c: "0 < c" "c < length heap" "parent c = ?pp" by simp_all
      from sib [OF c] lt show "newitem \<le> ?h ! c" by simp
    qed
    have c: "?pp < length ?h" using pp len by simp
    have d: "?pp > 0 \<longrightarrow> children_ge ?h ?pp (?h ! parent ?pp)"
    proof
      assume p0: "?pp > 0"
      let ?g = "parent ?pp"
      have g: "?g < ?pp" using p0 by (rule parent_less)
      have "?pp < length heap" using pp len by simp
      from heap_butD [OF hb p0 this] pp g have gpp: "heap ! ?g \<le> heap ! ?pp" by simp
      have hg: "?h ! ?g = heap ! ?g" using g pp by simp
      show "children_ge ?h ?pp (?h ! ?g)"
        unfolding children_ge_def hg
      proof (intro allI impI)
        fix c assume "0 < c \<and> c < length ?h \<and> parent c = ?pp"
        then have c: "0 < c" "c < length heap" "parent c = ?pp" by simp_all
        from sib [OF c] gpp show "heap ! ?g \<le> ?h ! c" by simp
      qed
    qed
    from less.IH [OF pp a b c d] eq show ?thesis by simp
  qed
qed

lemma mset_siftdown_loop:
  "pos < length heap \<Longrightarrow>
     mset (siftdown_loop heap startpos pos newitem) = mset (heap[pos := newitem])"
proof (induction pos arbitrary: heap rule: less_induct)
  case (less pos)
  let ?pp = "parent pos"
  show ?case
  proof (cases "startpos < pos \<and> newitem < heap ! ?pp")
    case False
    then show ?thesis by (simp add: siftdown_loop_stop)
  next
    case True
    then have pos: "pos > startpos" and lt: "newitem < heap ! ?pp" by simp_all
    have pp: "?pp < pos" using pos by (intro parent_less) simp
    let ?h = "heap[pos := heap ! ?pp]"
    have eq: "siftdown_loop heap startpos pos newitem = siftdown_loop ?h startpos ?pp newitem"
      using pos lt by (rule siftdown_loop_step)
    have "mset (siftdown_loop ?h startpos ?pp newitem) = mset (?h[?pp := newitem])"
      using less.IH [OF pp, of ?h] pp less.prems by simp
    also have "\<dots> = mset (heap[pos := newitem])"
      using pp less.prems by (intro mset_move) simp_all
    finally show ?thesis using eq by simp
  qed
qed


lemma parent_eq_iff: "0 < c \<Longrightarrow> parent c = pos \<longleftrightarrow> c = 2 * pos + 1 \<or> c = 2 * pos + 2"
  unfolding parent_def by presburger

lemma siftup_loop_inv:
  assumes "hole_inv heap pos" "siftup_loop heap pos (length heap) = (heap', pos')"
  shows "hole_inv heap' pos' \<and> length heap' = length heap
           \<and> \<not> 2 * pos' + 1 < length heap'
           \<and> (\<forall>x. mset (heap'[pos' := x]) = mset (heap[pos := x]))"
  using assms
proof (induction "length heap - pos" arbitrary: heap pos rule: less_induct)
  case less
  note inv = less.prems(1) and run = less.prems(2)
  from inv have hb: "heap_but heap pos" and len: "pos < length heap"
    and gp: "pos > 0 \<longrightarrow> children_ge heap pos (heap ! parent pos)"
    by (simp_all add: hole_inv_def)
  show ?case
  proof (cases "2 * pos + 1 < length heap")
    case False
    with run have "heap' = heap" "pos' = pos" by (simp_all add: siftup_loop_stop)
    with inv False show ?thesis by simp
  next
    case True
    let ?l = "2 * pos + 1" and ?r = "2 * pos + 2"
    define c where "c = (if ?r < length heap \<and> \<not> heap ! ?l < heap ! ?r then ?r else ?l)"
    let ?h = "heap[pos := heap ! c]"
    have run': "siftup_loop ?h c (length ?h) = (heap', pos')"
      using run True by (simp add: siftup_loop_step c_def Let_def)
    have c: "c = ?l \<or> c = ?r" "c < length heap" "pos < c" "0 < c"
      using True by (auto simp add: c_def)
    have pc: "parent c = pos" using c(1,4) by (simp add: parent_eq_iff)
    have sib: "heap ! c \<le> heap ! s" if s: "0 < s" "s < length heap" "parent s = pos" for s
    proof -
      from s have "s = ?l \<or> s = ?r" by (simp add: parent_eq_iff)
      then show ?thesis using s(2) by (auto simp add: c_def)
    qed
    have a: "heap_but ?h c"
      unfolding heap_but_def
    proof (intro allI impI)
      fix i assume "0 < i \<and> i < length ?h \<and> i \<noteq> c \<and> parent i \<noteq> c"
      then have i: "0 < i" "i < length heap" "i \<noteq> c" "parent i \<noteq> c" by simp_all
      show "?h ! parent i \<le> ?h ! i"
      proof (cases "i = pos")
        case True
        then have p0: "pos > 0" using i by simp
        have "parent pos \<noteq> pos" using p0 parent_less [of pos] by simp
        moreover have "heap ! parent pos \<le> heap ! c"
          using gp p0 c pc by (intro children_geD [of heap pos]) simp_all
        ultimately show ?thesis using True len by simp
      next
        case False
        show ?thesis
        proof (cases "parent i = pos")
          case True
          from sib [OF i(1,2) True] True False len show ?thesis by simp
        next
          case np: False
          from heap_butD [OF hb i(1,2) False np] np False show ?thesis by simp
        qed
      qed
    qed
    have b: "c > 0 \<longrightarrow> children_ge ?h c (?h ! parent c)"
    proof
      show "children_ge ?h c (?h ! parent c)"
        unfolding children_ge_def pc
      proof (intro allI impI)
        fix d assume "0 < d \<and> d < length ?h \<and> parent d = c"
        then have d: "0 < d" "d < length heap" "parent d = c" by simp_all
        then have "c < d" using parent_less [of d] by simp
        with c(3) have dp: "d \<noteq> pos" by simp
        have "parent d \<noteq> pos" using d(3) c(3) by simp
        from heap_butD [OF hb d(1,2) dp this] d(3) have "heap ! c \<le> heap ! d" by simp
        with dp len show "?h ! pos \<le> ?h ! d" by simp
      qed
    qed
    have inv': "hole_inv ?h c" using a b c by (simp add: hole_inv_def)
    have "length ?h - c < length heap - pos" using c len by simp
    from less.hyps [OF this inv' run']
    have r: "hole_inv heap' pos'" "length heap' = length heap" "\<not> 2 * pos' + 1 < length heap'"
      "\<And>x. mset (heap'[pos' := x]) = mset (?h[c := x])"
      by simp_all
    have "mset (?h[c := x]) = mset (heap[pos := x])" for x
      using len c by (intro mset_move) simp_all
    with r show ?thesis by simp
  qed
qed

lemma is_heap_siftup:
  assumes "hole_inv heap 0"
  shows "is_heap (siftup heap 0) \<and> mset (siftup heap 0) = mset heap"
proof -
  obtain heap' pos' where run: "siftup_loop heap 0 (length heap) = (heap', pos')"
    by (cases "siftup_loop heap 0 (length heap)")
  from siftup_loop_inv [OF assms run]
  have inv: "hole_inv heap' pos'" and len: "length heap' = length heap"
    and leaf: "\<not> 2 * pos' + 1 < length heap'"
    and ms: "\<And>x. mset (heap'[pos' := x]) = mset (heap[0 := x])"
    by simp_all
  let ?x = "heap ! 0"
  let ?h = "heap'[pos' := ?x]"
  from inv have p: "pos' < length heap'" by (simp add: hole_inv_def)
  have eq: "siftup heap 0 = siftdown_loop ?h 0 pos' ?x"
    using run p by (simp add: siftup_def siftdown_def Let_def)
  have nochild: "parent c \<noteq> pos'" if "0 < c" "c < length heap'" for c
    using that leaf by (auto simp add: parent_eq_iff)
  have a: "heap_but ?h pos'"
    using inv by (auto simp add: hole_inv_def heap_but_def)
  have b: "children_ge ?h pos' y" for y
    using nochild by (auto simp add: children_ge_def)
  have "is_heap (siftdown_loop ?h 0 pos' ?x)"
    using a b p by (intro siftdown_loop_heap) simp_all
  moreover have "mset (siftdown_loop ?h 0 pos' ?x) = mset heap"
    using p ms [of ?x] by (simp add: mset_siftdown_loop)
  ultimately show ?thesis using eq by simp
qed

lemma is_heap_root: "is_heap xs \<Longrightarrow> i < length xs \<Longrightarrow> xs ! 0 \<le> xs ! i"
proof (induction i rule: less_induct)
  case (less i)
  show ?case
  proof (cases "i = 0")
    case True
    then show ?thesis by simp
  next
    case False
    then have i: "0 < i" by simp
    with less.prems have "xs ! parent i \<le> xs ! i" by (simp add: is_heap_def)
    moreover have "xs ! 0 \<le> xs ! parent i"
      using less.IH [of "parent i"] parent_less [OF i] less.prems by simp
    ultimately show ?thesis by simp
  qed
qed

lemma is_heap_heappush:
  assumes "is_heap heap"
  shows "is_heap (heappush heap item) \<and> mset (heappush heap item) = add_mset item (mset heap)"
proof -
  let ?h = "heap @ [item]"
  let ?n = "length heap"
  have eq: "heappush heap item = siftdown_loop ?h 0 ?n item"
    by (simp add: heappush_def siftdown_def)
  have a: "heap_but ?h ?n"
    unfolding heap_but_def
  proof (intro allI impI)
    fix i assume "0 < i \<and> i < length ?h \<and> i \<noteq> ?n \<and> parent i \<noteq> ?n"
    then have i: "0 < i" "i < ?n" by simp_all
    with assms have "heap ! parent i \<le> heap ! i" by (simp add: is_heap_def)
    with i parent_less [OF i(1)] show "?h ! parent i \<le> ?h ! i" by (simp add: nth_append)
  qed
  have b: "children_ge ?h ?n y" for y
    unfolding children_ge_def
  proof (intro allI impI)
    fix c assume c: "0 < c \<and> c < length ?h \<and> parent c = ?n"
    then have "?n < c" using parent_less [of c] by simp
    with c show "y \<le> ?h ! c" by simp
  qed
  have "is_heap (siftdown_loop ?h 0 ?n item)"
    using a b by (intro siftdown_loop_heap) simp_all
  moreover have "mset (siftdown_loop ?h 0 ?n item) = add_mset item (mset heap)"
    by (simp add: mset_siftdown_loop)
  ultimately show ?thesis using eq by simp
qed

lemma is_heap_heappop:
  assumes "is_heap heap" "heap \<noteq> []"
  shows "fst (heappop heap) = Min (set heap) \<and> is_heap (snd (heappop heap))
           \<and> add_mset (fst (heappop heap)) (mset (snd (heappop heap))) = mset heap"
proof -
  have root: "heap ! 0 = Min (set heap)"
  proof (rule sym, rule Min_eqI)
    show "finite (set heap)" by simp
    show "heap ! 0 \<in> set heap" using assms(2) by simp
    fix y assume "y \<in> set heap"
    then obtain i where "i < length heap" "heap ! i = y" by (auto simp add: in_set_conv_nth)
    with is_heap_root [OF assms(1)] show "heap ! 0 \<le> y" by auto
  qed
  show ?thesis
  proof (cases "butlast heap = []")
    case True
    with assms(2) have "heap = [last heap]" by (metis append_butlast_last_id append_Nil)
    then obtain x where x: "heap = [x]" by blast
    then show ?thesis by (simp add: heappop_def is_heap_def)
  next
    case False
    let ?b = "butlast heap"
    let ?h = "?b[0 := last heap]"
    have pop: "heappop heap = (?b ! 0, siftup ?h 0)"
      using False by (simp add: heappop_def Let_def)
    have lb: "0 < length ?b" using False by (cases "butlast heap") simp_all
    have b0: "?b ! 0 = heap ! 0" using lb by (rule nth_butlast)
    from lb have l2: "Suc 0 < length heap" by simp
    have "heap_but ?h 0"
      unfolding heap_but_def
    proof (intro allI impI)
      fix i assume "0 < i \<and> i < length ?h \<and> i \<noteq> 0 \<and> parent i \<noteq> 0"
      then have i: "0 < i" "i < length heap - 1" "parent i \<noteq> 0" by simp_all
      with assms(1) have "heap ! parent i \<le> heap ! i" by (simp add: is_heap_def)
      with i parent_less [OF i(1)] show "?h ! parent i \<le> ?h ! i" by (simp add: nth_butlast)
    qed
    then have "hole_inv ?h 0" using l2 by (simp add: hole_inv_def)
    from is_heap_siftup [OF this]
    have h: "is_heap (siftup ?h 0)" and m: "mset (siftup ?h 0) = mset ?h" by simp_all
    have "heap = ?b @ [last heap]" using assms(2) by simp
    then have "mset heap = add_mset (last heap) (mset ?b)"
      by (metis mset.simps(2) mset_append union_mset_add_mset_right add.right_neutral mset.simps(1))
    moreover have "mset ?h = add_mset (last heap) (mset ?b - {#?b ! 0#})"
      using l2 by (simp add: mset_update)
    moreover have "?b ! 0 \<in># mset ?b" using lb by (simp only: set_mset_mset nth_mem)
    ultimately have "add_mset (?b ! 0) (mset ?h) = mset heap"
      by (simp add: insert_DiffM)
    with pop b0 root h m show ?thesis by simp
  qed
qed

section \<open>The queue returns its entries in ascending order\<close>

lemma is_heap_Nil: "is_heap []"
  by (simp add: is_heap_def)

lemma fold_put:
  "is_heap queue \<Longrightarrow>
     is_heap (fold put items queue) \<and> mset (fold put items queue) = mset queue + mset items"
proof (induction items arbitrary: queue)
  case Nil
  then show ?case by simp
next
  case (Cons item items)
  from is_heap_heappush [OF Cons.prems, of item]
  have "is_heap (put item queue)" "mset (put item queue) = add_mset item (mset queue)"
    by (simp_all add: put_def)
  with Cons.IH [of "put item queue"] show ?case by simp
qed

lemma get_nowait_Some: "queue \<noteq> [] \<Longrightarrow> get_nowait queue = Some (heappop queue)"
  by (simp add: get_nowait_def)

lemma drain_Nil: "drain [] = []"
  by (subst drain.simps) (simp add: get_nowait_def)

lemma drain_step:
  "queue \<noteq> [] \<Longrightarrow> drain queue = fst (heappop queue) # drain (snd (heappop queue))"
  by (subst drain.simps) (simp add: get_nowait_Some split: prod.splits)

lemma drain_heap: "is_heap queue \<Longrightarrow> mset (drain queue) = mset queue \<and> sorted (drain queue)"
proof (induction queue rule: length_induct)
  case (1 queue)
  show ?case
  proof (cases "queue = []")
    case True
    then show ?thesis by (simp add: drain_Nil)
  next
    case False
    let ?m = "fst (heappop queue)" and ?rest = "snd (heappop queue)"
    note pop = is_heap_heappop [OF "1.prems" False]
    from pop have m: "?m = Min (set queue)" by (rule conjunct1)
    from pop have h: "is_heap ?rest" by (rule conjunct2 [THEN conjunct1])
    from pop have ms: "add_mset ?m (mset ?rest) = mset queue" by (rule conjunct2 [THEN conjunct2])
    have "length ?rest < length queue" using length_heappop [OF False] by simp
    with "1.IH" h have d: "mset (drain ?rest) = mset ?rest" "sorted (drain ?rest)" by blast+
    have le: "\<forall>y \<in> set (drain ?rest). ?m \<le> y"
    proof
      fix y assume "y \<in> set (drain ?rest)"
      then have "y \<in># mset (drain ?rest)" by simp
      with d(1) have "y \<in># mset ?rest" by simp
      then have "y \<in># add_mset ?m (mset ?rest)" by simp
      then have "y \<in># mset queue" by (simp only: ms)
      then have "y \<in> set queue" by simp
      then have "Min (set queue) \<le> y" by simp
      with m show "?m \<le> y" by simp
    qed
    have "mset (drain queue) = add_mset ?m (mset (drain ?rest))"
      by (simp add: drain_step [OF False])
    with d(1) ms have "mset (drain queue) = mset queue" by simp
    moreover have "sorted (drain queue)"
      using le d(2) by (simp add: drain_step [OF False])
    ultimately show ?thesis by simp
  qed
qed

lemma drain_sort: "is_heap queue \<Longrightarrow> drain queue = sort queue"
  using drain_heap [of queue] by (intro sym [OF properties_for_sort]) simp_all

lemma sorted_map_fst: "sorted (xs :: ('a::linorder \<times> 'b::linorder) list) \<Longrightarrow> sorted (map fst xs)"
  by (induction xs) (auto simp add: less_eq_prod_def)

lemma sorted_ties:
  "sorted (xs :: ('a::linorder \<times> 'b::linorder) list) \<Longrightarrow>
     sorted (map snd (filter (\<lambda>t. fst t = p) xs))"
  by (induction xs) (auto simp add: less_eq_prod_def)

text \<open>
  C1, amended.  Whatever tasks are put into the queue, calling \<open>get_nowait\<close> until it is
  empty returns them in ascending order of the whole entry
  \<open>(priority, (executable, test goal))\<close>: priorities never decrease, and tasks of equal
  priority come in ascending order of \<open>(executable, test goal)\<close>, compared as Python
  compares tuples of texts.  The order of insertion plays no part.
\<close>

theorem queue_pops_in_tuple_order:
  "drain (fold put (tasks :: task list) []) = sort tasks
   \<and> sorted (map fst (drain (fold put tasks [])))
   \<and> sorted (map snd (filter (\<lambda>t. fst t = priority) (drain (fold put tasks []))))"
proof -
  let ?queue = "fold put tasks []"
  from fold_put [OF is_heap_Nil, of tasks]
  have h: "is_heap ?queue" and m: "mset ?queue = mset tasks" by simp_all
  have "drain ?queue = sort ?queue" using h by (rule drain_sort)
  also have "\<dots> = sort tasks" using m by (intro properties_for_sort) simp_all
  finally have d: "drain ?queue = sort tasks" .
  have s: "sorted (drain ?queue)" by (simp add: d)
  from s have "sorted (map fst (drain ?queue))" by (rule sorted_map_fst)
  moreover from s have "sorted (map snd (filter (\<lambda>t. fst t = priority) (drain ?queue)))"
    by (rule sorted_ties)
  ultimately show ?thesis using d by simp
qed

text \<open>
  C1.  With \<open>--testnames pyspark.b,pyspark.a\<close> and one executable, both tasks have priority
  0 and \<open>pyspark.b\<close> is put first; the queue returns \<open>pyspark.a\<close> first, where the tie-break
  by insertion order would return \<open>pyspark.b\<close> first.
\<close>

theorem insertion_order_not_kept:
  "drain (fold put (tasks_of_exec (example_host Raised)
       (Testnames [str ''pyspark.b'', str ''pyspark.a'']) (str ''python3'')) [])
     = [(0, str ''python3'', str ''pyspark.a''), (0, str ''python3'', str ''pyspark.b'')]
   \<and> insertion_tie_break (tasks_of_exec (example_host Raised)
       (Testnames [str ''pyspark.b'', str ''pyspark.a'']) (str ''python3''))
     = [(0, str ''python3'', str ''pyspark.b''), (0, str ''python3'', str ''pyspark.a'')]"
  by code_simp

end
